theory Spec2Isabelle
  imports Main "HOL-Library.Word"
begin

unbundle bit_operations_syntax

section \<open>Bytes, big integers and fixed-width words\<close>

text \<open>
  A Go \<^verbatim>\<open>[]byte\<close> is a list of 8-bit words. The 32-bit and 64-bit registers inside the
  hash functions are natural numbers kept below \<open>2 ^ 32\<close> (or \<open>2 ^ 64\<close>), with the wrap-around
  of every addition, rotation and complement written out.
\<close>

type_synonym byte = "8 word"

text \<open>\<^verbatim>\<open>big.Int.SetBytes\<close>: the bytes read as a big-endian unsigned integer.\<close>

definition bytes_to_nat :: "byte list \<Rightarrow> nat" where
  "bytes_to_nat bs = foldl (\<lambda>acc b. acc * 256 + unat b) 0 bs"

text \<open>\<^verbatim>\<open>big.Int.Bytes\<close>: the shortest big-endian representation, empty for zero.\<close>

function nat_to_bytes :: "nat \<Rightarrow> byte list" where
  "nat_to_bytes n = (if n = 0 then [] else nat_to_bytes (n div 256) @ [of_nat (n mod 256)])"
  by pat_completeness auto
termination
  by (relation "measure id") auto

declare nat_to_bytes.simps [simp del]

text \<open>A value written big-endian into a buffer of exactly \<open>k\<close> bytes.\<close>

fun be_bytes :: "nat \<Rightarrow> nat \<Rightarrow> byte list" where
  "be_bytes 0 n = []"
| "be_bytes (Suc k) n = be_bytes k (n div 256) @ [of_nat (n mod 256)]"

text \<open>The same, little-endian.\<close>

fun le_bytes :: "nat \<Rightarrow> nat \<Rightarrow> byte list" where
  "le_bytes 0 n = []"
| "le_bytes (Suc k) n = of_nat (n mod 256) # le_bytes k (n div 256)"

definition le_to_nat :: "byte list \<Rightarrow> nat" where
  "le_to_nat bs = foldr (\<lambda>b acc. acc * 256 + unat b) bs 0"

text \<open>Consecutive groups of four (eight) bytes as big-endian (little-endian) words.\<close>

fun be_words32 :: "byte list \<Rightarrow> nat list" where
  "be_words32 (a # b # c # d # rest) = bytes_to_nat [a, b, c, d] # be_words32 rest"
| "be_words32 _ = []"

fun le_words32 :: "byte list \<Rightarrow> nat list" where
  "le_words32 (a # b # c # d # rest) = le_to_nat [a, b, c, d] # le_words32 rest"
| "le_words32 _ = []"

fun le_words64 :: "byte list \<Rightarrow> nat list" where
  "le_words64 (a # b # c # d # e # f # g # h # rest) =
     le_to_nat [a, b, c, d, e, f, g, h] # le_words64 rest"
| "le_words64 _ = []"

definition add32 :: "nat \<Rightarrow> nat \<Rightarrow> nat" where
  "add32 a b = (a + b) mod 4294967296"

definition not32 :: "nat \<Rightarrow> nat" where
  "not32 x = 4294967295 - x mod 4294967296"

definition rotr32 :: "nat \<Rightarrow> nat \<Rightarrow> nat" where
  "rotr32 n x = x mod 4294967296 div 2 ^ n + x mod 2 ^ n * 2 ^ (32 - n)"

definition rotl32 :: "nat \<Rightarrow> nat \<Rightarrow> nat" where
  "rotl32 n x = x mod 2 ^ (32 - n) * 2 ^ n + x mod 4294967296 div 2 ^ (32 - n)"

definition shr32 :: "nat \<Rightarrow> nat \<Rightarrow> nat" where
  "shr32 n x = x mod 4294967296 div 2 ^ n"

section \<open>SHA-256 (\<^verbatim>\<open>crypto/sha256\<close>)\<close>

definition sha256_K :: "nat list" where
  "sha256_K =
     [0x428a2f98, 0x71374491, 0xb5c0fbcf, 0xe9b5dba5, 0x3956c25b, 0x59f111f1, 0x923f82a4, 0xab1c5ed5]
     @ [0xd807aa98, 0x12835b01, 0x243185be, 0x550c7dc3, 0x72be5d74, 0x80deb1fe, 0x9bdc06a7, 0xc19bf174]
     @ [0xe49b69c1, 0xefbe4786, 0x0fc19dc6, 0x240ca1cc, 0x2de92c6f, 0x4a7484aa, 0x5cb0a9dc, 0x76f988da]
     @ [0x983e5152, 0xa831c66d, 0xb00327c8, 0xbf597fc7, 0xc6e00bf3, 0xd5a79147, 0x06ca6351, 0x14292967]
     @ [0x27b70a85, 0x2e1b2138, 0x4d2c6dfc, 0x53380d13, 0x650a7354, 0x766a0abb, 0x81c2c92e, 0x92722c85]
     @ [0xa2bfe8a1, 0xa81a664b, 0xc24b8b70, 0xc76c51a3, 0xd192e819, 0xd6990624, 0xf40e3585, 0x106aa070]
     @ [0x19a4c116, 0x1e376c08, 0x2748774c, 0x34b0bcb5, 0x391c0cb3, 0x4ed8aa4a, 0x5b9cca4f, 0x682e6ff3]
     @ [0x748f82ee, 0x78a5636f, 0x84c87814, 0x8cc70208, 0x90befffa, 0xa4506ceb, 0xbef9a3f7, 0xc67178f2]"

type_synonym sha256_state = "nat \<times> nat \<times> nat \<times> nat \<times> nat \<times> nat \<times> nat \<times> nat"

definition sha256_init :: sha256_state where
  "sha256_init =
    (0x6a09e667, 0xbb67ae85, 0x3c6ef372, 0xa54ff53a, 0x510e527f, 0x9b05688c, 0x1f83d9ab, 0x5be0cd19)"

definition sha256_ch :: "nat \<Rightarrow> nat \<Rightarrow> nat \<Rightarrow> nat" where
  "sha256_ch x y z = (x AND y) XOR (not32 x AND z)"

definition sha256_maj :: "nat \<Rightarrow> nat \<Rightarrow> nat \<Rightarrow> nat" where
  "sha256_maj x y z = (x AND y) XOR (x AND z) XOR (y AND z)"

definition sha256_bsig0 :: "nat \<Rightarrow> nat" where
  "sha256_bsig0 x = rotr32 2 x XOR rotr32 13 x XOR rotr32 22 x"

definition sha256_bsig1 :: "nat \<Rightarrow> nat" where
  "sha256_bsig1 x = rotr32 6 x XOR rotr32 11 x XOR rotr32 25 x"

definition sha256_ssig0 :: "nat \<Rightarrow> nat" where
  "sha256_ssig0 x = rotr32 7 x XOR rotr32 18 x XOR shr32 3 x"

definition sha256_ssig1 :: "nat \<Rightarrow> nat" where
  "sha256_ssig1 x = rotr32 17 x XOR rotr32 19 x XOR shr32 10 x"

text \<open>
  The message schedule. The list holds the words computed so far, newest first, so that
  \<open>w\<^sub>t\<^sub>-\<^sub>2\<close>, \<open>w\<^sub>t\<^sub>-\<^sub>7\<close>, \<open>w\<^sub>t\<^sub>-\<^sub>1\<^sub>5\<close> and \<open>w\<^sub>t\<^sub>-\<^sub>1\<^sub>6\<close> sit at positions 1, 6, 14 and 15.
\<close>

fun sha256_extend :: "nat \<Rightarrow> nat list \<Rightarrow> nat list" where
  "sha256_extend 0 ws = ws"
| "sha256_extend (Suc n) ws =
     sha256_extend n
       (add32 (add32 (add32 (sha256_ssig1 (ws ! 1)) (ws ! 6)) (sha256_ssig0 (ws ! 14))) (ws ! 15)
        # ws)"

definition sha256_schedule :: "byte list \<Rightarrow> nat list" where
  "sha256_schedule chunk = rev (sha256_extend 48 (rev (be_words32 chunk)))"

fun sha256_round :: "sha256_state \<Rightarrow> nat \<times> nat \<Rightarrow> sha256_state" where
  "sha256_round (a, b, c, d, e, f, g, h) (k, w) =
     (let t1 = add32 (add32 (add32 (add32 h (sha256_bsig1 e)) (sha256_ch e f g)) k) w;
          t2 = add32 (sha256_bsig0 a) (sha256_maj a b c)
      in (add32 t1 t2, a, b, c, add32 d t1, e, f, g))"

fun sha256_add_state :: "sha256_state \<Rightarrow> sha256_state \<Rightarrow> sha256_state" where
  "sha256_add_state (a, b, c, d, e, f, g, h) (a', b', c', d', e', f', g', h') =
     (add32 a a', add32 b b', add32 c c', add32 d d', add32 e e', add32 f f', add32 g g',
      add32 h h')"

definition sha256_block :: "sha256_state \<Rightarrow> byte list \<Rightarrow> sha256_state" where
  "sha256_block st chunk =
     sha256_add_state st (foldl sha256_round st (zip sha256_K (sha256_schedule chunk)))"

function sha256_blocks :: "sha256_state \<Rightarrow> byte list \<Rightarrow> sha256_state" where
  "sha256_blocks st p =
     (if length p < 64 then st else sha256_blocks (sha256_block st (take 64 p)) (drop 64 p))"
  by pat_completeness auto
termination
  by (relation "measure (\<lambda>(st, p). length p)") auto

declare sha256_blocks.simps [simp del]

text \<open>
  Padding: the byte \<open>0x80\<close>, zero bytes up to 56 modulo 64, then the message length in bits
  as a 64-bit big-endian integer.
\<close>

definition sha256_pad :: "byte list \<Rightarrow> byte list" where
  "sha256_pad msg =
     msg @ [0x80] @ replicate ((119 - length msg mod 64) mod 64) 0
       @ be_bytes 8 (8 * length msg mod 18446744073709551616)"

fun sha256_output :: "sha256_state \<Rightarrow> byte list" where
  "sha256_output (a, b, c, d, e, f, g, h) =
     be_bytes 4 a @ be_bytes 4 b @ be_bytes 4 c @ be_bytes 4 d
       @ be_bytes 4 e @ be_bytes 4 f @ be_bytes 4 g @ be_bytes 4 h"

text \<open>\<^verbatim>\<open>sha256.Sum256(data)\<close>: the 32-byte digest.\<close>

definition sha256_Sum256 :: "byte list \<Rightarrow> byte list" where
  "sha256_Sum256 msg = sha256_output (sha256_blocks sha256_init (sha256_pad msg))"

text \<open>
  The streaming interface \<^verbatim>\<open>hash.Hash\<close>: the hasher's state is determined by the bytes
  written since creation or the last \<^verbatim>\<open>Reset\<close>; \<^verbatim>\<open>Sum(b)\<close> appends the digest of those
  bytes to \<open>b\<close> and leaves the hasher unchanged.
\<close>

record hasher =
  written :: "byte list"

definition hasher_New :: hasher where
  "hasher_New = \<lparr>written = []\<rparr>"

definition hasher_Write :: "hasher \<Rightarrow> byte list \<Rightarrow> hasher" where
  "hasher_Write h p = h\<lparr>written := written h @ p\<rparr>"

definition hasher_Reset :: "hasher \<Rightarrow> hasher" where
  "hasher_Reset h = h\<lparr>written := []\<rparr>"

definition sha256_Sum :: "hasher \<Rightarrow> byte list \<Rightarrow> byte list" where
  "sha256_Sum h b = b @ sha256_Sum256 (written h)"

section \<open>RIPEMD-160 (\<^verbatim>\<open>golang.org/x/crypto/ripemd160\<close>)\<close>

type_synonym rmd_state = "nat \<times> nat \<times> nat \<times> nat \<times> nat"

definition rmd_init :: rmd_state where
  "rmd_init = (0x67452301, 0xefcdab89, 0x98badcfe, 0x10325476, 0xc3d2e1f0)"

text \<open>The five boolean functions, selected by the number of the 16-step group.\<close>

definition rmd_f :: "nat \<Rightarrow> nat \<Rightarrow> nat \<Rightarrow> nat \<Rightarrow> nat" where
  "rmd_f g x y z =
     (if g = 0 then x XOR y XOR z
      else if g = 1 then (x AND y) OR (not32 x AND z)
      else if g = 2 then (x OR not32 y) XOR z
      else if g = 3 then (x AND z) OR (y AND not32 z)
      else x XOR (y OR not32 z))"

definition rmd_group :: "nat list" where
  "rmd_group = replicate 16 0 @ replicate 16 1 @ replicate 16 2 @ replicate 16 3 @ replicate 16 4"

definition rmd_K_left :: "nat list" where
  "rmd_K_left = [0x00000000, 0x5a827999, 0x6ed9eba1, 0x8f1bbcdc, 0xa953fd4e]"

definition rmd_K_right :: "nat list" where
  "rmd_K_right = [0x50a28be6, 0x5c4dd124, 0x6d703ef3, 0x7a6d76e9, 0x00000000]"

definition rmd_r_left :: "nat list" where
  "rmd_r_left =
     [0, 1, 2, 3, 4, 5, 6, 7, 8, 9, 10, 11, 12, 13, 14, 15]
     @ [7, 4, 13, 1, 10, 6, 15, 3, 12, 0, 9, 5, 2, 14, 11, 8]
     @ [3, 10, 14, 4, 9, 15, 8, 1, 2, 7, 0, 6, 13, 11, 5, 12]
     @ [1, 9, 11, 10, 0, 8, 12, 4, 13, 3, 7, 15, 14, 5, 6, 2]
     @ [4, 0, 5, 9, 7, 12, 2, 10, 14, 1, 3, 8, 11, 6, 15, 13]"

definition rmd_r_right :: "nat list" where
  "rmd_r_right =
     [5, 14, 7, 0, 9, 2, 11, 4, 13, 6, 15, 8, 1, 10, 3, 12]
     @ [6, 11, 3, 7, 0, 13, 5, 10, 14, 15, 8, 12, 4, 9, 1, 2]
     @ [15, 5, 1, 3, 7, 14, 6, 9, 11, 8, 12, 2, 10, 0, 4, 13]
     @ [8, 6, 4, 1, 3, 11, 15, 0, 5, 12, 2, 13, 9, 7, 10, 14]
     @ [12, 15, 10, 4, 1, 5, 8, 7, 6, 2, 13, 14, 0, 3, 9, 11]"

definition rmd_s_left :: "nat list" where
  "rmd_s_left =
     [11, 14, 15, 12, 5, 8, 7, 9, 11, 13, 14, 15, 6, 7, 9, 8]
     @ [7, 6, 8, 13, 11, 9, 7, 15, 7, 12, 15, 9, 11, 7, 13, 12]
     @ [11, 13, 6, 7, 14, 9, 13, 15, 14, 8, 13, 6, 5, 12, 7, 5]
     @ [11, 12, 14, 15, 14, 15, 9, 8, 9, 14, 5, 6, 8, 6, 5, 12]
     @ [9, 15, 5, 11, 6, 8, 13, 12, 5, 12, 13, 14, 11, 8, 5, 6]"

definition rmd_s_right :: "nat list" where
  "rmd_s_right =
     [8, 9, 9, 11, 13, 15, 15, 5, 7, 7, 8, 11, 14, 14, 12, 6]
     @ [9, 13, 15, 7, 12, 8, 9, 11, 7, 7, 12, 7, 6, 15, 13, 11]
     @ [9, 7, 15, 11, 8, 6, 6, 14, 12, 13, 5, 14, 13, 13, 7, 5]
     @ [15, 5, 8, 11, 14, 14, 6, 14, 6, 9, 12, 9, 12, 5, 15, 8]
     @ [8, 5, 12, 9, 12, 5, 14, 6, 8, 13, 6, 5, 15, 13, 11, 11]"

text \<open>
  One step of a line: \<open>fg\<close> selects the boolean function, \<open>k\<close> is the added constant,
  \<open>x\<close> the selected message word and \<open>s\<close> the rotation amount.
\<close>

fun rmd_step :: "nat \<Rightarrow> nat \<Rightarrow> nat \<Rightarrow> nat \<Rightarrow> rmd_state \<Rightarrow> rmd_state" where
  "rmd_step fg k x s (a, b, c, d, e) =
     (e, add32 (rotl32 s (add32 (add32 (add32 a (rmd_f fg b c d)) x) k)) e, b, rotl32 10 c, d)"

fun rmd_left_step :: "nat list \<Rightarrow> rmd_state \<Rightarrow> nat \<times> nat \<times> nat \<Rightarrow> rmd_state" where
  "rmd_left_step X st (g, r, s) = rmd_step g (rmd_K_left ! g) (X ! r) s st"

fun rmd_right_step :: "nat list \<Rightarrow> rmd_state \<Rightarrow> nat \<times> nat \<times> nat \<Rightarrow> rmd_state" where
  "rmd_right_step X st (g, r, s) = rmd_step (4 - g) (rmd_K_right ! g) (X ! r) s st"

fun rmd_combine :: "rmd_state \<Rightarrow> rmd_state \<Rightarrow> rmd_state \<Rightarrow> rmd_state" where
  "rmd_combine (h0, h1, h2, h3, h4) (a, b, c, d, e) (a', b', c', d', e') =
     (add32 (add32 h1 c) d', add32 (add32 h2 d) e', add32 (add32 h3 e) a',
      add32 (add32 h4 a) b', add32 (add32 h0 b) c')"

definition rmd_lines :: "rmd_state \<Rightarrow> nat list \<Rightarrow> rmd_state" where
  "rmd_lines st X =
     rmd_combine st
       (foldl (rmd_left_step X) st (zip rmd_group (zip rmd_r_left rmd_s_left)))
       (foldl (rmd_right_step X) st (zip rmd_group (zip rmd_r_right rmd_s_right)))"

definition rmd_block :: "rmd_state \<Rightarrow> byte list \<Rightarrow> rmd_state" where
  "rmd_block st chunk = rmd_lines st (le_words32 chunk)"

function rmd_blocks :: "rmd_state \<Rightarrow> byte list \<Rightarrow> rmd_state" where
  "rmd_blocks st p =
     (if length p < 64 then st else rmd_blocks (rmd_block st (take 64 p)) (drop 64 p))"
  by pat_completeness auto
termination
  by (relation "measure (\<lambda>(st, p). length p)") auto

declare rmd_blocks.simps [simp del]

text \<open>Padding as for SHA-256, but with the bit length little-endian.\<close>

definition rmd_pad :: "byte list \<Rightarrow> byte list" where
  "rmd_pad msg =
     msg @ [0x80] @ replicate ((119 - length msg mod 64) mod 64) 0
       @ le_bytes 8 (8 * length msg mod 18446744073709551616)"

fun rmd_output :: "rmd_state \<Rightarrow> byte list" where
  "rmd_output (a, b, c, d, e) =
     le_bytes 4 a @ le_bytes 4 b @ le_bytes 4 c @ le_bytes 4 d @ le_bytes 4 e"

definition ripemd160_digest :: "byte list \<Rightarrow> byte list" where
  "ripemd160_digest msg = rmd_output (rmd_blocks rmd_init (rmd_pad msg))"

definition ripemd160_Sum :: "hasher \<Rightarrow> byte list \<Rightarrow> byte list" where
  "ripemd160_Sum h b = b @ ripemd160_digest (written h)"

section \<open>Keccak-256 (\<^verbatim>\<open>sha3.NewLegacyKeccak256\<close>, used by \<^verbatim>\<open>go-ethereum/crypto\<close>)\<close>

text \<open>
  The state is a list of 25 lanes of 64 bits; lane \<open>(x, y)\<close> is at position \<open>x + 5 * y\<close>.
\<close>

definition rotl64 :: "nat \<Rightarrow> nat \<Rightarrow> nat" where
  "rotl64 n x =
     x mod 2 ^ (64 - n) * 2 ^ n + x mod 18446744073709551616 div 2 ^ (64 - n)"

definition not64 :: "nat \<Rightarrow> nat" where
  "not64 x = 18446744073709551615 - x mod 18446744073709551616"

definition keccak_lanes :: "nat list" where
  "keccak_lanes =
     [0, 1, 2, 3, 4, 5, 6, 7, 8, 9, 10, 11, 12, 13, 14, 15, 16, 17, 18, 19, 20, 21, 22, 23, 24]"

definition keccak_RC :: "nat list" where
  "keccak_RC =
    [0x0000000000000001, 0x0000000000008082, 0x800000000000808a, 0x8000000080008000,
     0x000000000000808b, 0x0000000080000001, 0x8000000080008081, 0x8000000000008009,
     0x000000000000008a, 0x0000000000000088, 0x0000000080008009, 0x000000008000000a,
     0x000000008000808b, 0x800000000000008b, 0x8000000000008089, 0x8000000000008003,
     0x8000000000008002, 0x8000000000000080, 0x000000000000800a, 0x800000008000000a,
     0x8000000080008081, 0x8000000000008080, 0x0000000080000001, 0x8000000080008008]"

text \<open>The rotation offset of lane \<open>(x, y)\<close>, at position \<open>x + 5 * y\<close>.\<close>

definition keccak_rot :: "nat list" where
  "keccak_rot =
    [0, 1, 62, 28, 27,
     36, 44, 6, 55, 20,
     3, 10, 43, 25, 39,
     41, 45, 15, 21, 8,
     18, 2, 61, 56, 14]"

definition keccak_C :: "nat list \<Rightarrow> nat \<Rightarrow> nat" where
  "keccak_C s x = s ! x XOR s ! (x + 5) XOR s ! (x + 10) XOR s ! (x + 15) XOR s ! (x + 20)"

definition keccak_D :: "nat list \<Rightarrow> nat list" where
  "keccak_D c = map (\<lambda>x. c ! ((x + 4) mod 5) XOR rotl64 1 (c ! ((x + 1) mod 5))) [0, 1, 2, 3, 4]"

definition keccak_xor_D :: "nat list \<Rightarrow> nat list \<Rightarrow> nat list" where
  "keccak_xor_D s d = map (\<lambda>i. s ! i XOR d ! (i mod 5)) keccak_lanes"

definition keccak_theta :: "nat list \<Rightarrow> nat list" where
  "keccak_theta s = keccak_xor_D s (keccak_D (map (keccak_C s) [0, 1, 2, 3, 4]))"

text \<open>
  \<open>\<rho>\<close> and \<open>\<pi>\<close>: the lane \<open>(x, y)\<close>, rotated by its offset, moves to \<open>(y, 2x + 3y)\<close>; so the
  lane arriving at \<open>(x', y')\<close> comes from \<open>x = x' + 3y'\<close>, \<open>y = x'\<close> (all modulo 5).
\<close>

definition keccak_src :: "nat \<Rightarrow> nat" where
  "keccak_src j = (j mod 5 + 3 * (j div 5)) mod 5 + 5 * (j mod 5)"

definition keccak_rho_pi :: "nat list \<Rightarrow> nat list" where
  "keccak_rho_pi s =
     map (\<lambda>j. rotl64 (keccak_rot ! keccak_src j) (s ! keccak_src j)) keccak_lanes"

definition keccak_chi :: "nat list \<Rightarrow> nat list" where
  "keccak_chi s =
     map (\<lambda>j. s ! j XOR
               (not64 (s ! ((j mod 5 + 1) mod 5 + 5 * (j div 5)))
                  AND s ! ((j mod 5 + 2) mod 5 + 5 * (j div 5)))) keccak_lanes"

definition keccak_iota :: "nat \<Rightarrow> nat list \<Rightarrow> nat list" where
  "keccak_iota rc s = (case s of [] \<Rightarrow> [] | a # rest \<Rightarrow> (a XOR rc) # rest)"

definition keccak_round :: "nat list \<Rightarrow> nat \<Rightarrow> nat list" where
  "keccak_round s rc = keccak_iota rc (keccak_chi (keccak_rho_pi (keccak_theta s)))"

definition keccak_f :: "nat list \<Rightarrow> nat list" where
  "keccak_f s = foldl keccak_round s keccak_RC"

text \<open>Absorbing one block of 136 bytes (the rate of Keccak-256): 17 lanes are XORed in.\<close>

fun xor_lanes :: "nat list \<Rightarrow> nat list \<Rightarrow> nat list" where
  "xor_lanes (a # s) (b # l) = (a XOR b) # xor_lanes s l"
| "xor_lanes s [] = s"
| "xor_lanes [] l = []"

function keccak_absorb :: "nat list \<Rightarrow> byte list \<Rightarrow> nat list" where
  "keccak_absorb s p =
     (if length p < 136 then s
      else keccak_absorb (keccak_f (xor_lanes s (le_words64 (take 136 p)))) (drop 136 p))"
  by pat_completeness auto
termination
  by (relation "measure (\<lambda>(s, p). length p)") auto

declare keccak_absorb.simps [simp del]

text \<open>
  Padding of the original Keccak submission: domain byte \<open>0x01\<close>, zeros, final bit \<open>0x80\<close>;
  one byte \<open>0x81\<close> when a single byte is missing.
\<close>

definition keccak_pad :: "byte list \<Rightarrow> byte list" where
  "keccak_pad msg =
     (let padlen = 136 - length msg mod 136
      in if padlen = 1 then msg @ [0x81]
         else msg @ [0x01] @ replicate (padlen - 2) 0 @ [0x80])"

text \<open>The digest is the first 32 bytes of the state: four lanes, little-endian.\<close>

definition keccak_squeeze :: "nat list \<Rightarrow> byte list" where
  "keccak_squeeze s =
     le_bytes 8 (s ! 0) @ le_bytes 8 (s ! 1) @ le_bytes 8 (s ! 2) @ le_bytes 8 (s ! 3)"

definition crypto_Keccak256 :: "byte list \<Rightarrow> byte list" where
  "crypto_Keccak256 msg = keccak_squeeze (keccak_absorb (replicate 25 0) (keccak_pad msg))"

section \<open>The curve secp256k1\<close>

text \<open>
  The libraries (\<^verbatim>\<open>btcutilecc\<close> behind \<^verbatim>\<open>go-bip32\<close>, \<^verbatim>\<open>btcec\<close>, and the curve of
  \<^verbatim>\<open>go-ethereum/crypto\<close>) all compute the multiple \<open>k \<cdot> G\<close> of the base point. The model
  computes it in affine coordinates over the integers modulo the field prime.
\<close>

definition secp256k1_P :: int where
  "secp256k1_P = 0xFFFFFFFFFFFFFFFFFFFFFFFFFFFFFFFFFFFFFFFFFFFFFFFFFFFFFFFEFFFFFC2F"

definition secp256k1_N :: nat where
  "secp256k1_N = 0xFFFFFFFFFFFFFFFFFFFFFFFFFFFFFFFEBAAEDCE6AF48A03BBFD25E8CD0364141"

datatype point = Infinity | Affine int int

definition secp256k1_G :: point where
  "secp256k1_G =
     Affine 0x79BE667EF9DCBBAC55A06295CE870B07029BFCDB2DCE28D959F2815B16F81798
            0x483ADA7726A3C4655DA4FBFC0E1108A8FD17B448A68554199C47D08FFB10D4B8"

function modpow :: "int \<Rightarrow> nat \<Rightarrow> int \<Rightarrow> int" where
  "modpow b e m =
     (if e = 0 then 1 mod m
      else let h = modpow (b * b mod m) (e div 2) m
           in if even e then h else b * h mod m)"
  by pat_completeness auto
termination
  by (relation "measure (\<lambda>(b, e, m). e)") auto

declare modpow.simps [simp del]

text \<open>The inverse in the prime field, by Fermat's little theorem.\<close>

definition field_inv :: "int \<Rightarrow> int" where
  "field_inv a = modpow (a mod secp256k1_P) (nat (secp256k1_P - 2)) secp256k1_P"

fun ec_add :: "point \<Rightarrow> point \<Rightarrow> point" where
  "ec_add Infinity q = q"
| "ec_add (Affine x1 y1) Infinity = Affine x1 y1"
| "ec_add (Affine x1 y1) (Affine x2 y2) =
     (if x1 = x2 \<and> (y1 + y2) mod secp256k1_P = 0 then Infinity
      else let l = (if x1 = x2 then 3 * x1 * x1 * field_inv (2 * y1)
                    else (y2 - y1) * field_inv (x2 - x1)) mod secp256k1_P;
               x3 = (l * l - x1 - x2) mod secp256k1_P
           in Affine x3 ((l * (x1 - x3) - y1) mod secp256k1_P))"

function ec_mul :: "nat \<Rightarrow> point \<Rightarrow> point" where
  "ec_mul k p =
     (if k = 0 then Infinity
      else if even k then ec_mul (k div 2) (ec_add p p)
      else ec_add p (ec_mul (k div 2) (ec_add p p)))"
  by pat_completeness auto
termination
  by (relation "measure (\<lambda>(k, p). k)") auto

declare ec_mul.simps [simp del]

text \<open>\<^verbatim>\<open>ScalarBaseMult(k)\<close>: the scalar is the big-endian value of the bytes.\<close>

definition ScalarBaseMult :: "byte list \<Rightarrow> point" where
  "ScalarBaseMult k = ec_mul (bytes_to_nat k) secp256k1_G"

section \<open>Base58 (\<^verbatim>\<open>btcutil/base58\<close> and \<^verbatim>\<open>mr-tron/base58\<close>)\<close>

definition b58_alphabet :: string where
  "b58_alphabet = ''123456789ABCDEFGHJKLMNPQRSTUVWXYZabcdefghijkmnopqrstuvwxyz''"

text \<open>
  \<^verbatim>\<open>base58.Encode\<close> divides the big integer by 58 until it is zero, appending one digit
  for each remainder, then appends a \<open>1\<close> for each leading zero byte, and reverses.
\<close>

function b58_digits :: "nat \<Rightarrow> string" where
  "b58_digits x = (if x = 0 then [] else b58_alphabet ! (x mod 58) # b58_digits (x div 58))"
  by pat_completeness auto
termination
  by (relation "measure id") auto

declare b58_digits.simps [simp del]

definition base58_Encode :: "byte list \<Rightarrow> string" where
  "base58_Encode b =
     rev (b58_digits (bytes_to_nat b)
          @ replicate (length (takeWhile (\<lambda>i. i = 0) b)) (b58_alphabet ! 0))"

text \<open>
  The decoding table \<^verbatim>\<open>b58\<close>: the position of a character in the alphabet, 255 for a
  character outside it.
\<close>

fun index_of :: "'a \<Rightarrow> 'a list \<Rightarrow> nat option" where
  "index_of c [] = None"
| "index_of c (x # xs) =
     (if c = x then Some 0 else case index_of c xs of None \<Rightarrow> None | Some i \<Rightarrow> Some (Suc i))"

definition b58 :: "char \<Rightarrow> nat" where
  "b58 c = (case index_of c b58_alphabet of None \<Rightarrow> 255 | Some i \<Rightarrow> i)"

text \<open>
  \<^verbatim>\<open>base58.Decode\<close> reads the string from its last character, with \<open>j\<close> the current power
  of 58; an invalid character makes it return the empty slice.
\<close>

fun b58_decode_loop :: "string \<Rightarrow> nat \<Rightarrow> nat \<Rightarrow> nat option" where
  "b58_decode_loop [] answer j = Some answer"
| "b58_decode_loop (c # cs) answer j =
     (if b58 c = 255 then None else b58_decode_loop cs (answer + j * b58 c) (j * 58))"

definition base58_Decode :: "string \<Rightarrow> byte list" where
  "base58_Decode b =
     (case b58_decode_loop (rev b) 0 1 of
        None \<Rightarrow> []
      | Some answer \<Rightarrow>
          replicate (length (takeWhile (\<lambda>c. c = b58_alphabet ! 0) b)) 0 @ nat_to_bytes answer)"

text \<open>
  \<^verbatim>\<open>mr-tron/base58\<close> (\<^verbatim>\<open>FastBase58EncodingAlphabet\<close> with the Bitcoin alphabet) works on a
  zeroed buffer \<open>out\<close> of base-58 digits: for each input byte the buffer is multiplied by 256
  and the byte added, from the last position up to the highest position touched so far
  (\<open>high\<close>) and further while a carry remains; the loop is left once the position is at
  most \<open>high\<close> and the carry is zero. Writing before the start of the buffer is an
  index-out-of-range panic, here \<open>None\<close>. The carry stays below \<open>2 ^ 32\<close>: it is at most
  \<open>255 + 256 * 57\<close>.
\<close>

function mrtron_carry :: "nat \<Rightarrow> int \<Rightarrow> int \<Rightarrow> nat list \<Rightarrow> (nat list \<times> int) option" where
  "mrtron_carry carry i high out =
     (if i \<le> high \<and> carry = 0 then Some (out, i)
      else if i < 0 \<or> int (length out) \<le> i then None
      else let c = carry + 256 * out ! nat i
           in mrtron_carry (c div 58) (i - 1) high (out[nat i := c mod 58]))"
  by pat_completeness auto
termination
  by (relation "measure (\<lambda>(carry, i, high, out). nat (i + 1))") auto

declare mrtron_carry.simps [simp del]

fun mrtron_bytes :: "byte list \<Rightarrow> int \<Rightarrow> int \<Rightarrow> nat list \<Rightarrow> nat list option" where
  "mrtron_bytes [] sz high out = Some out"
| "mrtron_bytes (b # bin) sz high out =
     (case mrtron_carry (unat b) (sz - 1) high out of
        None \<Rightarrow> None
      | Some (out', i) \<Rightarrow> mrtron_bytes bin sz i out')"

definition mrtronBase58_Encode :: "byte list \<Rightarrow> string option" where
  "mrtronBase58_Encode bin =
     (let zcount = length (takeWhile (\<lambda>b. b = 0) bin);
          sz = zcount + (length bin - zcount) * 555 div 406 + 1
      in case mrtron_bytes bin (int sz) (int sz - 1) (replicate sz 0) of
           None \<Rightarrow> None
         | Some out \<Rightarrow>
             let i = zcount + length (takeWhile (\<lambda>d. d = 0) (drop zcount out));
                 val = drop (i - zcount) out
             in Some (map (\<lambda>d. b58_alphabet ! d) val))"

section \<open>Hexadecimal text and Ethereum addresses (\<^verbatim>\<open>encoding/hex\<close>, \<^verbatim>\<open>go-ethereum/common\<close>)\<close>

definition byte_of_char :: "char \<Rightarrow> byte" where
  "byte_of_char c = of_nat (of_char c)"

definition char_of_byte :: "byte \<Rightarrow> char" where
  "char_of_byte b = char_of (unat b)"

definition hextable :: string where
  "hextable = ''0123456789abcdef''"

text \<open>\<^verbatim>\<open>hex.Encode\<close>: two characters of \<^verbatim>\<open>hextable\<close> for each byte, high nibble first.\<close>

fun hex_Encode :: "byte list \<Rightarrow> byte list" where
  "hex_Encode [] = []"
| "hex_Encode (v # src) =
     byte_of_char (hextable ! unat (drop_bit 4 v))
       # byte_of_char (hextable ! unat (v AND 0x0f)) # hex_Encode src"

text \<open>
  \<^verbatim>\<open>common.BytesToAddress\<close>: an address is 20 bytes; a longer slice is cropped from the
  left, a shorter one is right-aligned.
\<close>

definition common_BytesToAddress :: "byte list \<Rightarrow> byte list" where
  "common_BytesToAddress b =
     (let b' = (if length b > 20 then drop (length b - 20) b else b)
      in replicate (20 - length b') 0 @ b')"

definition Address_hex :: "byte list \<Rightarrow> byte list" where
  "Address_hex a = map byte_of_char ''0x'' @ hex_Encode a"

text \<open>
  The loop of \<^verbatim>\<open>checksumHex\<close> (EIP-55), from position \<open>i\<close> over the rest of the buffer:
  a letter becomes upper case when the corresponding nibble of the hash exceeds 7.
\<close>

fun checksum_loop :: "nat \<Rightarrow> byte list \<Rightarrow> byte list \<Rightarrow> byte list" where
  "checksum_loop i hash [] = []"
| "checksum_loop i hash (c # buf) =
     (let hashByte = hash ! ((i - 2) div 2);
          hashByte = (if i mod 2 = 0 then drop_bit 4 hashByte else hashByte AND 0xf)
      in (if c > 0x39 \<and> hashByte > 7 then c - 32 else c) # checksum_loop (i + 1) hash buf)"

definition Address_checksumHex :: "byte list \<Rightarrow> byte list" where
  "Address_checksumHex a =
     (let buf = Address_hex a;
          hash = crypto_Keccak256 (drop 2 buf)
      in take 2 buf @ checksum_loop 2 hash (drop 2 buf))"

text \<open>\<^verbatim>\<open>Address.Hex\<close> returns the checksummed text as a string.\<close>

definition Address_Hex :: "byte list \<Rightarrow> string" where
  "Address_Hex a = map char_of_byte (Address_checksumHex a)"

section \<open>Keys (\<^verbatim>\<open>go-bip32\<close>, \<^verbatim>\<open>go-ethereum/crypto\<close>, \<^verbatim>\<open>btcec\<close>)\<close>

text \<open>
  A panic of the Go runtime is a value: dereferencing a nil pointer, which is what happens
  when a library hands back no key or no point and the caller uses it.
\<close>

datatype go_panic = NilPointerDereference | IndexOutOfRange

record bip32_Key =
  Key :: "byte list"
  Version :: "byte list"
  ChildNumber :: "byte list"
  FingerPrint :: "byte list"
  ChainCode :: "byte list"
  Depth :: byte
  IsPrivate :: bool

definition PublicWalletVersion :: "byte list" where
  "PublicWalletVersion = [0x04, 0x88, 0xB2, 0x1E]"

text \<open>
  \<^verbatim>\<open>compressPublicKey\<close>: the header \<open>0x02\<close> or \<open>0x03\<close> by the parity of \<open>y\<close>, then \<open>x\<close>
  left-padded with zeros to 32 bytes.
\<close>

definition compressPublicKey :: "int \<Rightarrow> int \<Rightarrow> byte list" where
  "compressPublicKey x y =
     (let xBytes = nat_to_bytes (nat x)
      in [0x2 + of_nat (nat y mod 2)] @ replicate (33 - 1 - length xBytes) 0 @ xBytes)"

text \<open>
  \<^verbatim>\<open>publicKeyForPrivateKey\<close>: the curve of \<^verbatim>\<open>btcutilecc\<close> returns no point (nil) for the
  point at infinity, and compressing it dereferences nil.
\<close>

definition publicKeyForPrivateKey :: "byte list \<Rightarrow> go_panic + byte list" where
  "publicKeyForPrivateKey key =
     (case ScalarBaseMult key of
        Infinity \<Rightarrow> Inl NilPointerDereference
      | Affine x y \<Rightarrow> Inr (compressPublicKey x y))"

text \<open>\<^verbatim>\<open>(*Key).PublicKey\<close>: a private key is replaced by its compressed public key.\<close>

definition bip32_PublicKey :: "bip32_Key \<Rightarrow> go_panic + bip32_Key" where
  "bip32_PublicKey key =
     (case (if IsPrivate key then publicKeyForPrivateKey (Key key) else Inr (Key key)) of
        Inl e \<Rightarrow> Inl e
      | Inr keyBytes \<Rightarrow>
          Inr \<lparr>Key = keyBytes, Version = PublicWalletVersion, ChildNumber = ChildNumber key,
               FingerPrint = FingerPrint key, ChainCode = ChainCode key, Depth = Depth key,
               IsPrivate = False\<rparr>)"

text \<open>
  \<^verbatim>\<open>crypto.ToECDSAUnsafe\<close>: the scalar \<open>D\<close> must lie strictly between 0 and the group
  order and must have a public point; otherwise the function returns nil (\<open>None\<close>).
\<close>

record ecdsa_PublicKey =
  X :: int
  Y :: int

record ecdsa_PrivateKey =
  PublicKey :: ecdsa_PublicKey
  D :: nat

definition crypto_ToECDSAUnsafe :: "byte list \<Rightarrow> ecdsa_PrivateKey option" where
  "crypto_ToECDSAUnsafe d =
     (if bytes_to_nat d \<ge> secp256k1_N then None
      else if bytes_to_nat d = 0 then None
      else case ScalarBaseMult d of
             Infinity \<Rightarrow> None
           | Affine x y \<Rightarrow> Some \<lparr>PublicKey = \<lparr>X = x, Y = y\<rparr>, D = bytes_to_nat d\<rparr>)"

text \<open>
  \<^verbatim>\<open>crypto.FromECDSAPub\<close>: the byte \<open>0x04\<close>, then \<open>X\<close> and \<open>Y\<close> in 32 bytes each.
\<close>

definition crypto_FromECDSAPub :: "ecdsa_PublicKey \<Rightarrow> byte list" where
  "crypto_FromECDSAPub pub = [0x04] @ be_bytes 32 (nat (X pub)) @ be_bytes 32 (nat (Y pub))"

text \<open>
  \<^verbatim>\<open>crypto.PubkeyToAddress\<close>: the last 20 bytes of the Keccak-256 hash of the 64 bytes
  after the prefix.
\<close>

definition crypto_PubkeyToAddress :: "ecdsa_PublicKey \<Rightarrow> byte list" where
  "crypto_PubkeyToAddress p =
     (let pubBytes = crypto_FromECDSAPub p
      in common_BytesToAddress (drop 12 (crypto_Keccak256 (drop 1 pubBytes))))"

text \<open>
  \<^verbatim>\<open>btcec.PrivKeyFromBytes\<close> and \<^verbatim>\<open>SerializeUncompressed\<close>: the affine conversion of
  \<^verbatim>\<open>btcec\<close> maps the point at infinity to \<open>(0, 0)\<close>; the serialization is the byte
  \<open>0x04\<close> followed by both coordinates, each left-padded to 32 bytes.
\<close>

definition btcec_PrivKeyFromBytes :: "byte list \<Rightarrow> ecdsa_PrivateKey" where
  "btcec_PrivKeyFromBytes pk =
     (case ScalarBaseMult pk of
        Infinity \<Rightarrow> \<lparr>PublicKey = \<lparr>X = 0, Y = 0\<rparr>, D = bytes_to_nat pk\<rparr>
      | Affine x y \<Rightarrow> \<lparr>PublicKey = \<lparr>X = x, Y = y\<rparr>, D = bytes_to_nat pk\<rparr>)"

definition paddedAppend :: "nat \<Rightarrow> byte list \<Rightarrow> byte list \<Rightarrow> byte list" where
  "paddedAppend sz dst src = dst @ replicate (sz - length src) 0 @ src"

definition SerializeUncompressed :: "ecdsa_PublicKey \<Rightarrow> byte list" where
  "SerializeUncompressed p =
     paddedAppend 32 (paddedAppend 32 [0x04] (nat_to_bytes (nat (X p)))) (nat_to_bytes (nat (Y p)))"

section \<open>The address encoder of \<^verbatim>\<open>utils/utils.go\<close>\<close>

text \<open>\<^verbatim>\<open>hash160\<close>: RIPEMD-160 of SHA-256, through the streaming interface.\<close>

definition hash160 :: "byte list \<Rightarrow> byte list" where
  "hash160 data =
     (let sha256Hasher = hasher_Write hasher_New data;
          sha256Hash = sha256_Sum sha256Hasher [];
          ripemd160Hasher = hasher_Write hasher_New sha256Hash
      in ripemd160_Sum ripemd160Hasher [])"

text \<open>\<^verbatim>\<open>computeChecksum\<close>: the first four bytes of the double SHA-256.\<close>

definition computeChecksum :: "byte list \<Rightarrow> byte list" where
  "computeChecksum data =
     (let firstHash = sha256_Sum256 data;
          secondHash = sha256_Sum256 firstHash
      in take 4 secondHash)"

definition generateEVMAddress :: "bip32_Key \<Rightarrow> go_panic + string" where
  "generateEVMAddress childKey =
     (case crypto_ToECDSAUnsafe (Key childKey) of
        None \<Rightarrow> Inl NilPointerDereference
      | Some ecdaPrivateKey \<Rightarrow>
          let ecdaPublicKey = PublicKey ecdaPrivateKey;
              address = crypto_PubkeyToAddress ecdaPublicKey
          in Inr (Address_Hex address))"

definition generateBTCAddress :: "bip32_Key \<Rightarrow> go_panic + string" where
  "generateBTCAddress childKey =
     (case bip32_PublicKey childKey of
        Inl e \<Rightarrow> Inl e
      | Inr pub \<Rightarrow>
          let pubKeyBytes = Key pub;
              pubKeyHash = hash160 pubKeyBytes;
              versionedPayload = [0x00] @ pubKeyHash;
              fullPayload = versionedPayload @ computeChecksum versionedPayload
          in Inr (base58_Encode fullPayload))"

definition generateERCAddress :: "bip32_Key \<Rightarrow> go_panic + string" where
  "generateERCAddress childKey =
     (case bip32_PublicKey childKey of
        Inl e \<Rightarrow> Inl e
      | Inr pub \<Rightarrow>
          let pubKeyHash = hash160 (Key pub);
              versionedPayload = [0x21] @ pubKeyHash;
              fullPayload = versionedPayload @ computeChecksum versionedPayload
          in Inr (base58_Encode fullPayload))"

definition generateTRXAddress :: "bip32_Key \<Rightarrow> go_panic + string" where
  "generateTRXAddress childKey =
     (case bip32_PublicKey childKey of
        Inl e \<Rightarrow> Inl e
      | Inr pub \<Rightarrow>
          let pubKeyBytes = Key pub;
              sha256Hash = sha256_Sum256 pubKeyBytes;
              ripemd160Hasher = hasher_Write hasher_New sha256Hash;
              pubKeyHash = ripemd160_Sum ripemd160Hasher [];
              trxPayload = [0x41] @ pubKeyHash;
              fullPayload = trxPayload @ computeChecksum trxPayload
          in case mrtronBase58_Encode fullPayload of
               None \<Rightarrow> Inl IndexOutOfRange
             | Some address \<Rightarrow> Inr address)"

text \<open>
  \<^verbatim>\<open>AddressConversion\<close> writes to the standard logger in its default branch. The logger is
  the list of the messages printed so far (without the time stamp that \<^verbatim>\<open>log\<close> puts in
  front); the function takes it and returns it with the result.
\<close>

type_synonym logger = "string list"

definition log_Printf :: "logger \<Rightarrow> string \<Rightarrow> logger" where
  "log_Printf lg msg = lg @ [msg]"

definition AddressConversion ::
  "bip32_Key \<Rightarrow> string \<Rightarrow> logger \<Rightarrow> (go_panic + string) \<times> logger" where
  "AddressConversion childKey network lg =
     (if network = ''EVM'' then (generateEVMAddress childKey, lg)
      else if network = ''BTC'' then (generateBTCAddress childKey, lg)
      else if network = ''TRX'' then (generateTRXAddress childKey, lg)
      else if network = ''ERC'' then (generateERCAddress childKey, lg)
      else (Inr [], log_Printf lg (''Unsupported network: '' @ network)))"

section \<open>The earlier revision of the address encoder (\<^verbatim>\<open>unnamed/part_000\<close>)\<close>

definition computeChecksum_p0 :: "byte list \<Rightarrow> byte list" where
  "computeChecksum_p0 data =
     (let sha256Hasher = hasher_Write hasher_New data;
          checksum1 = sha256_Sum sha256Hasher [];
          sha256Hasher = hasher_Reset sha256Hasher;
          sha256Hasher = hasher_Write sha256Hasher checksum1
      in take 4 (sha256_Sum sha256Hasher []))"

definition Hash160 :: "byte list \<Rightarrow> byte list" where
  "Hash160 data =
     (let sha256Hasher = hasher_Write hasher_New data;
          sha256Hash = sha256_Sum sha256Hasher [];
          ripemd160Hasher = hasher_Write hasher_New sha256Hash
      in ripemd160_Sum ripemd160Hasher [])"

definition generateEVMAddress_p0 :: "bip32_Key \<Rightarrow> go_panic + string" where
  "generateEVMAddress_p0 childKey =
     (case crypto_ToECDSAUnsafe (Key childKey) of
        None \<Rightarrow> Inl NilPointerDereference
      | Some ecdaPrivateKey \<Rightarrow>
          let ecdaPublicKey = PublicKey ecdaPrivateKey;
              newAddress = crypto_PubkeyToAddress ecdaPublicKey
          in Inr (''0x'' @ Address_Hex newAddress))"

definition generateBTCAddress_p0 :: "bip32_Key \<Rightarrow> go_panic + string" where
  "generateBTCAddress_p0 childKey =
     (case bip32_PublicKey childKey of
        Inl e \<Rightarrow> Inl e
      | Inr pub \<Rightarrow>
          let pubKeyBytes = Key pub;
              pubKeyHash = Hash160 pubKeyBytes;
              versionedPayload = [0x00] @ pubKeyHash;
              checksum = computeChecksum_p0 versionedPayload;
              fullPayload = versionedPayload @ checksum
          in Inr (base58_Encode fullPayload))"

definition generateTRXAddress_p0 :: "bip32_Key \<Rightarrow> go_panic + string" where
  "generateTRXAddress_p0 childKey =
     (let privateKey = btcec_PrivKeyFromBytes (Key childKey);
          publicKey = SerializeUncompressed (PublicKey privateKey);
          pubKeyHash = Hash160 publicKey;
          tronNetworkByte = 0x41;
          addressBytes = [tronNetworkByte] @ pubKeyHash;
          checksum = computeChecksum_p0 addressBytes;
          fullPayload = addressBytes @ checksum
      in Inr (base58_Encode fullPayload))"

definition AddressConversion_p0 :: "bip32_Key \<Rightarrow> string \<Rightarrow> go_panic + string" where
  "AddressConversion_p0 childKey network =
     (if network = ''EVM'' then generateEVMAddress_p0 childKey
      else if network = ''BTC'' then generateBTCAddress_p0 childKey
      else if network = ''TRX'' then generateTRXAddress_p0 childKey
      else if network = ''ERC'' then Inr []
      else Inr [])"

section \<open>Child keys and the notions the properties are stated with\<close>

text \<open>
  A child key as the key source hands it over: a private key of 32 bytes whose scalar lies
  strictly between 0 and the group order, with a public point. (That each such scalar has a
  public point is a fact about the curve, whose base point has the prime order
  \<open>secp256k1_N\<close>; it is not derived here and therefore part of the condition.)
\<close>

definition derived_child_key :: "bip32_Key \<Rightarrow> bool" where
  "derived_child_key k \<longleftrightarrow>
     IsPrivate k \<and> length (Key k) = 32 \<and> 0 < bytes_to_nat (Key k)
       \<and> bytes_to_nat (Key k) < secp256k1_N \<and> ScalarBaseMult (Key k) \<noteq> Infinity"

text \<open>The child key with the private scalar 1, whose public point is the base point.\<close>

definition key1 :: bip32_Key where
  "key1 = \<lparr>Key = replicate 31 0 @ [1], Version = [0x04, 0x88, 0xAD, 0xE4],
           ChildNumber = [0, 0, 0, 0], FingerPrint = [0, 0, 0, 0], ChainCode = replicate 32 0,
           Depth = 5, IsPrivate = True\<rparr>"

text \<open>
  The Base58Check pipeline in the words of the specification: the version byte in front of
  the RIPEMD-160 of the SHA-256 of the public key, followed by the first four bytes of the
  double SHA-256 of these 21 bytes, in Base58 with the Bitcoin alphabet.
\<close>

definition base58check :: "byte \<Rightarrow> byte list \<Rightarrow> string" where
  "base58check version pubKey =
     (let versioned = version # ripemd160_digest (sha256_Sum256 pubKey)
      in base58_Encode (versioned @ take 4 (sha256_Sum256 (sha256_Sum256 versioned))))"

text \<open>The formats of an Ethereum address text, and ASCII lower case.\<close>

definition lower_hex_digit :: "char \<Rightarrow> bool" where
  "lower_hex_digit c \<longleftrightarrow> c \<in> set ''0123456789abcdef''"

definition hex_digit :: "char \<Rightarrow> bool" where
  "hex_digit c \<longleftrightarrow> c \<in> set ''0123456789abcdefABCDEF''"

definition evm_lowercase_format :: "string \<Rightarrow> bool" where
  "evm_lowercase_format s \<longleftrightarrow>
     length s = 42 \<and> take 2 s = ''0x'' \<and> list_all lower_hex_digit (drop 2 s)"

definition evm_mixed_case_format :: "string \<Rightarrow> bool" where
  "evm_mixed_case_format s \<longleftrightarrow>
     length s = 42 \<and> take 2 s = ''0x'' \<and> list_all hex_digit (drop 2 s)"

definition ascii_lower :: "char \<Rightarrow> char" where
  "ascii_lower c =
     (if (65::nat) \<le> of_char c \<and> of_char c \<le> (90::nat) then char_of (of_char c + (32::nat))
      else c)"

text \<open>The value of a list of base-58 digits, most significant digit first.\<close>

definition b58val :: "nat list \<Rightarrow> nat" where
  "b58val ds = foldl (\<lambda>a d. a * 58 + d) 0 ds"

text \<open>A point whose coordinates are reduced modulo the field prime.\<close>

definition on_field :: "point \<Rightarrow> bool" where
  "on_field p =
     (case p of
        Infinity \<Rightarrow> True
      | Affine x y \<Rightarrow> 0 \<le> x \<and> x < secp256k1_P \<and> 0 \<le> y \<and> y < secp256k1_P)"

text \<open>The coordinates of the public point of a key, and the last \<open>n\<close> bytes of a slice.\<close>

definition public_point :: "bip32_Key \<Rightarrow> int \<times> int" where
  "public_point k = (case ScalarBaseMult (Key k) of Infinity \<Rightarrow> (0, 0) | Affine x y \<Rightarrow> (x, y))"

definition last_bytes :: "nat \<Rightarrow> byte list \<Rightarrow> byte list" where
  "last_bytes n bs = drop (length bs - n) bs"

text \<open>
  A decoded Base58Check payload: 25 bytes, the last four being the checksum of the others.
\<close>

definition checksum_valid :: "byte list \<Rightarrow> bool" where
  "checksum_valid payload \<longleftrightarrow>
     length payload = 25
     \<and> drop (length payload - 4) payload = computeChecksum (take (length payload - 4) payload)"


section \<open>The digests and the two primitives\<close>

lemma length_be_bytes [simp]: "length (be_bytes k n) = k"
  by (induction k arbitrary: n) simp_all

lemma length_le_bytes [simp]: "length (le_bytes k n) = k"
  by (induction k arbitrary: n) simp_all

lemma length_sha256_output: "length (sha256_output st) = 32"
  by (induction st rule: sha256_output.induct) simp

lemma length_sha256_Sum256 [simp]: "length (sha256_Sum256 msg) = 32"
  by (simp add: sha256_Sum256_def length_sha256_output)

lemma length_rmd_output: "length (rmd_output st) = 20"
  by (induction st rule: rmd_output.induct) simp

lemma length_ripemd160_digest [simp]: "length (ripemd160_digest msg) = 20"
  by (simp add: ripemd160_digest_def length_rmd_output)

lemma length_crypto_Keccak256 [simp]: "length (crypto_Keccak256 msg) = 32"
  by (simp add: crypto_Keccak256_def keccak_squeeze_def)

lemma hash160_eq: "hash160 data = ripemd160_digest (sha256_Sum256 data)"
  by (simp add: hash160_def hasher_New_def hasher_Write_def sha256_Sum_def ripemd160_Sum_def)

lemma Hash160_eq: "Hash160 data = ripemd160_digest (sha256_Sum256 data)"
  by (simp add: Hash160_def hasher_New_def hasher_Write_def sha256_Sum_def ripemd160_Sum_def)

lemma computeChecksum_eq: "computeChecksum data = take 4 (sha256_Sum256 (sha256_Sum256 data))"
  by (simp add: computeChecksum_def)

lemma computeChecksum_p0_eq:
  "computeChecksum_p0 data = take 4 (sha256_Sum256 (sha256_Sum256 data))"
  by (simp add: computeChecksum_p0_def hasher_New_def hasher_Write_def hasher_Reset_def
      sha256_Sum_def)

lemma length_computeChecksum [simp]: "length (computeChecksum data) = 4"
  by (simp add: computeChecksum_eq)

lemma length_hash160 [simp]: "length (hash160 data) = 20"
  by (simp add: hash160_eq)

text \<open>
  Claim C4. For every byte sequence, \<open>hash160\<close> returns the RIPEMD-160 digest of the SHA-256
  digest of its input, which has exactly 20 bytes. It is a total function of its input with
  a byte list as its only result, so it is deterministic and has no error path. The
  \<open>Hash160\<close> of the earlier revision is the same function.
\<close>

theorem hash160_is_ripemd160_of_sha256:
  "hash160 data = ripemd160_digest (sha256_Sum256 data)
   \<and> length (hash160 data) = 20
   \<and> Hash160 data = hash160 data"
  by (simp add: hash160_eq Hash160_eq)

text \<open>
  Claim C5. For every byte sequence, \<open>computeChecksum\<close> returns the first four bytes of the
  SHA-256 digest of the SHA-256 digest of its input, exactly 4 bytes. It is a total function
  with a byte list as its only result. The earlier revision, which reuses one hasher after a
  reset, computes the same.
\<close>

theorem computeChecksum_is_double_sha256_prefix:
  "computeChecksum data = take 4 (sha256_Sum256 (sha256_Sum256 data))
   \<and> length (computeChecksum data) = 4
   \<and> computeChecksum_p0 data = computeChecksum data"
  by (simp add: computeChecksum_eq computeChecksum_p0_eq)

section \<open>Dispatch\<close>

text \<open>
  Claim C10. For every child key the BTC pipelines of the two revisions return the same
  result, and that result is the Base58Check text of the specification with version byte
  \<open>0x00\<close>, computed from the key bytes of the public key that \<^verbatim>\<open>PublicKey()\<close> yields
  (the compressed public key).
\<close>

theorem generateBTCAddress_revisions_agree:
  "generateBTCAddress_p0 childKey = generateBTCAddress childKey
   \<and> generateBTCAddress childKey =
       (case bip32_PublicKey childKey of
          Inl e \<Rightarrow> Inl e
        | Inr pub \<Rightarrow> Inr (base58check 0x00 (Key pub)))"
  by (simp add: generateBTCAddress_p0_def generateBTCAddress_def base58check_def hash160_eq
      Hash160_eq computeChecksum_eq computeChecksum_p0_eq Let_def split: sum.split)


text \<open>
  Claim C1, as stated, fails: for the identifier \<open>DOGE\<close> the function returns the empty
  string as an ordinary result, after printing a message; no error value reaches the caller.
\<close>

theorem AddressConversion_unsupported_counterexample:
  "AddressConversion key1 ''DOGE'' [] = (Inr '''', [''Unsupported network: DOGE''])"
  by (simp add: AddressConversion_def log_Printf_def)

text \<open>
  Claim C1, amended. For every network identifier outside \<open>EVM\<close>, \<open>BTC\<close>, \<open>TRX\<close>, \<open>ERC\<close>,
  \<open>AddressConversion\<close> returns the empty string, never the output of a pipeline, and prints
  the message \<open>Unsupported network:\<close> followed by the identifier; the earlier revision
  returns the empty string without a message.
\<close>

theorem AddressConversion_unsupported:
  assumes "network \<notin> {''EVM'', ''BTC'', ''TRX'', ''ERC''}"
  shows "AddressConversion childKey network lg
           = (Inr '''', lg @ [''Unsupported network: '' @ network])
         \<and> AddressConversion_p0 childKey network = Inr ''''"
  using assms by (simp add: AddressConversion_def AddressConversion_p0_def log_Printf_def)

theorem AddressConversion_unsupported_witness:
  "''DOGE'' \<notin> {''EVM'', ''BTC'', ''TRX'', ''ERC''}
   \<and> AddressConversion key1 ''DOGE'' [] = (Inr '''', [] @ [''Unsupported network: '' @ ''DOGE''])
   \<and> AddressConversion_p0 key1 ''DOGE'' = Inr ''''"
  using AddressConversion_unsupported [of "''DOGE''" key1 "[]"] by simp

section \<open>Base58: decoding inverts encoding\<close>

lemma bytes_to_nat_snoc: "bytes_to_nat (bs @ [b]) = bytes_to_nat bs * 256 + unat b"
  by (simp add: bytes_to_nat_def)

lemma bytes_to_nat_Nil [simp]: "bytes_to_nat [] = 0"
  by (simp add: bytes_to_nat_def)

lemma bytes_to_nat_eq_0_iff: "bytes_to_nat bs = 0 \<longleftrightarrow> set bs \<subseteq> {0}"
proof (induction bs rule: rev_induct)
  case Nil
  show ?case by simp
next
  case (snoc b bs)
  have "unat b = 0 \<longleftrightarrow> b = 0" by (simp add: unat_eq_0)
  with snoc show ?case by (auto simp: bytes_to_nat_snoc)
qed

lemma takeWhile_zero_replicate:
  "takeWhile (\<lambda>x. x = c) xs = replicate (length (takeWhile (\<lambda>x. x = c) xs)) c"
proof -
  have "\<forall>x \<in> set (takeWhile (\<lambda>x. x = c) xs). x = c"
    by (auto dest: set_takeWhileD)
  then show ?thesis
    by (metis replicate_length_same)
qed

lemma nat_to_bytes_bytes_to_nat:
  "nat_to_bytes (bytes_to_nat bs) = dropWhile (\<lambda>b. b = 0) bs"
proof (induction bs rule: rev_induct)
  case Nil
  show ?case by (simp add: nat_to_bytes.simps)
next
  case (snoc b bs)
  let ?n = "bytes_to_nat (bs @ [b])"
  show ?case
  proof (cases "?n = 0")
    case True
    then have "set (bs @ [b]) \<subseteq> {0}" by (simp only: bytes_to_nat_eq_0_iff)
    then have "dropWhile (\<lambda>b. b = 0) (bs @ [b]) = []" by auto
    with True show ?thesis by (simp add: nat_to_bytes.simps)
  next
    case False
    have lt: "unat b < 256" using unsigned_less [of b, where 'a = nat] by simp
    have d: "?n div 256 = bytes_to_nat bs" and m: "?n mod 256 = unat b"
      using lt by (simp_all add: bytes_to_nat_snoc)
    have "nat_to_bytes ?n = nat_to_bytes (bytes_to_nat bs) @ [b]"
      using False by (subst nat_to_bytes.simps) (simp add: d m)
    also have "\<dots> = dropWhile (\<lambda>b. b = 0) bs @ [b]" by (simp add: snoc.IH)
    also have "\<dots> = dropWhile (\<lambda>b. b = 0) (bs @ [b])"
    proof (cases "set bs \<subseteq> {0}")
      case True
      then have z: "bytes_to_nat bs = 0" by (simp only: bytes_to_nat_eq_0_iff)
      with False have "b \<noteq> 0" by (auto simp: bytes_to_nat_snoc)
      moreover have "dropWhile (\<lambda>b. b = 0) bs = []" using True by auto
      moreover have "dropWhile (\<lambda>b. b = 0) (bs @ [b]) = dropWhile (\<lambda>b. b = 0) [b]"
        using True by (intro dropWhile_append2) auto
      ultimately show ?thesis by simp
    next
      case False
      then obtain x where "x \<in> set bs" "x \<noteq> 0" by auto
      then show ?thesis by (simp add: dropWhile_append1)
    qed
    finally show ?thesis .
  qed
qed

lemma index_of_nth:
  "distinct xs \<Longrightarrow> i < length xs \<Longrightarrow> index_of (xs ! i) xs = Some i"
proof (induction xs arbitrary: i)
  case Nil
  then show ?case by simp
next
  case (Cons x xs)
  show ?case
  proof (cases i)
    case 0
    then show ?thesis by simp
  next
    case (Suc j)
    with Cons.prems have "xs ! j \<in> set xs" "x \<notin> set xs" "j < length xs" "distinct xs"
      by auto
    with Suc Cons.IH [of j] show ?thesis by auto
  qed
qed

lemma distinct_b58_alphabet: "distinct b58_alphabet"
  by (simp add: b58_alphabet_def)

lemma length_b58_alphabet: "length b58_alphabet = 58"
  by (simp add: b58_alphabet_def)

lemma b58_alphabet_nth: "d < 58 \<Longrightarrow> b58 (b58_alphabet ! d) = d"
  by (simp add: b58_def index_of_nth distinct_b58_alphabet length_b58_alphabet)

lemma b58_decode_loop_ones:
  "b58_decode_loop (replicate z (b58_alphabet ! 0)) answer j = Some answer"
  by (induction z arbitrary: j) (simp_all add: b58_alphabet_nth)

lemma b58_decode_loop_digits:
  "b58_decode_loop (b58_digits n @ replicate z (b58_alphabet ! 0)) answer j
     = Some (answer + j * n)"
proof (induction n arbitrary: answer j rule: b58_digits.induct)
  case (1 x)
  show ?case
  proof (cases "x = 0")
    case True
    then show ?thesis by (simp add: b58_digits.simps b58_decode_loop_ones)
  next
    case False
    have "b58_decode_loop (b58_digits x @ replicate z (b58_alphabet ! 0)) answer j
            = b58_decode_loop (b58_digits (x div 58) @ replicate z (b58_alphabet ! 0))
                (answer + j * (x mod 58)) (j * 58)"
    proof -
      have lt: "x mod 58 < 58" by simp
      then have "b58 (b58_alphabet ! (x mod 58)) = x mod 58" by (rule b58_alphabet_nth)
      moreover from lt have "x mod 58 \<noteq> 255" by linarith
      ultimately show ?thesis using False by (subst b58_digits.simps) simp
    qed
    also have "\<dots> = Some (answer + j * (x mod 58) + j * 58 * (x div 58))"
      using False by (rule "1.IH")
    also have "answer + j * (x mod 58) + j * 58 * (x div 58) = answer + j * x"
    proof -
      have "j * (x mod 58) + j * 58 * (x div 58) = j * (x mod 58 + 58 * (x div 58))"
        by (simp only: distrib_left mult.assoc)
      also have "x mod 58 + 58 * (x div 58) = x"
        by (rule mod_mult_div_eq)
      finally show ?thesis by simp
    qed
    finally show ?thesis .
  qed
qed

lemma b58_digits_last:
  "n \<noteq> 0 \<Longrightarrow> last (b58_digits n) \<noteq> b58_alphabet ! 0"
proof (induction n rule: b58_digits.induct)
  case (1 x)
  show ?case
  proof (cases "x div 58 = 0")
    case True
    with "1.prems" have "x mod 58 = x" "x < 58" "b58_digits x = [b58_alphabet ! x]"
      by (auto simp: b58_digits.simps [of x] b58_digits.simps [of 0] div_eq_0_iff)
    moreover have "b58_alphabet ! x \<noteq> b58_alphabet ! 0"
      using \<open>x < 58\<close> "1.prems"
      by (simp add: nth_eq_iff_index_eq distinct_b58_alphabet length_b58_alphabet)
    ultimately show ?thesis by simp
  next
    case False
    then have "b58_digits (x div 58) \<noteq> []" by (subst b58_digits.simps) simp
    then have "last (b58_digits x) = last (b58_digits (x div 58))"
      using "1.prems" by (subst b58_digits.simps) simp
    with "1.IH" [OF "1.prems" False] show ?thesis by simp
  qed
qed

lemma b58_digits_zero [simp]: "b58_digits 0 = []"
  by (simp add: b58_digits.simps)

lemma takeWhile_ones_rev_digits:
  "takeWhile (\<lambda>c. c = b58_alphabet ! 0) (rev (b58_digits n)) = []"
proof (cases "n = 0")
  case True
  then show ?thesis by simp
next
  case False
  then have ne: "b58_digits n \<noteq> []" by (subst b58_digits.simps) simp
  then obtain ys y where ds: "b58_digits n = ys @ [y]"
    by (cases "b58_digits n" rule: rev_cases) auto
  with b58_digits_last [OF False] have "y \<noteq> b58_alphabet ! 0" by simp
  with ds show ?thesis by simp
qed

lemma takeWhile_replicate_append:
  "P c \<Longrightarrow> takeWhile P (replicate z c @ ys) = replicate z c @ takeWhile P ys"
  by (induction z) simp_all

lemma base58_Encode_alt:
  "base58_Encode b =
     replicate (length (takeWhile (\<lambda>i. i = 0) b)) (b58_alphabet ! 0)
       @ rev (b58_digits (bytes_to_nat b))"
  by (simp add: base58_Encode_def)

lemma base58_Decode_Encode: "base58_Decode (base58_Encode b) = b"
proof -
  let ?z = "length (takeWhile (\<lambda>i. i = 0) b)"
  let ?one = "b58_alphabet ! 0"
  have loop: "b58_decode_loop (rev (base58_Encode b)) 0 (Suc 0) = Some (bytes_to_nat b)"
    using b58_decode_loop_digits [of "bytes_to_nat b" ?z 0 "Suc 0"]
    by (simp add: base58_Encode_def)
  have "takeWhile (\<lambda>c. c = ?one) (base58_Encode b) = replicate ?z ?one"
    by (simp add: base58_Encode_alt takeWhile_replicate_append takeWhile_ones_rev_digits)
  then have zeros: "length (takeWhile (\<lambda>c. c = ?one) (base58_Encode b)) = ?z"
    by simp
  have "base58_Decode (base58_Encode b) = replicate ?z 0 @ nat_to_bytes (bytes_to_nat b)"
    by (simp add: base58_Decode_def loop zeros)
  also have "\<dots> = takeWhile (\<lambda>i. i = 0) b @ dropWhile (\<lambda>i. i = 0) b"
    using takeWhile_zero_replicate [of 0 b] by (simp add: nat_to_bytes_bytes_to_nat)
  finally show ?thesis by simp
qed

section \<open>The two Base58 encoders agree\<close>

lemma b58val_Nil [simp]: "b58val [] = 0"
  by (simp add: b58val_def)

lemma b58val_snoc [simp]: "b58val (ds @ [d]) = b58val ds * 58 + d"
  by (simp add: b58val_def)

lemma b58val_append: "b58val (ds @ es) = b58val ds * 58 ^ length es + b58val es"
proof (induction es rule: rev_induct)
  case Nil
  show ?case by simp
next
  case (snoc e es)
  have "b58val (ds @ es @ [e]) = b58val (ds @ es) * 58 + e"
    using b58val_snoc [of "ds @ es" e] by simp
  then show ?case by (simp add: snoc.IH algebra_simps)
qed

lemma b58val_Cons: "b58val (d # ds) = d * 58 ^ length ds + b58val ds"
  using b58val_append [of "[d]" ds] b58val_snoc [of "[]" d] by simp

lemma b58val_replicate_0 [simp]: "b58val (replicate n 0) = 0"
  by (induction n) (simp_all add: b58val_Cons)

lemma b58val_eq_0: "b58val ds = 0 \<Longrightarrow> set ds \<subseteq> {0}"
  by (induction ds rule: rev_induct) auto

lemma b58val_zeros: "set ds \<subseteq> {0} \<Longrightarrow> b58val ds = 0"
  by (induction ds rule: rev_induct) auto

lemma mrtron_carry_correct:
  assumes "- 1 \<le> i" and "i < int (length out)" and "- 1 \<le> high"
    and "\<forall>k. int k \<le> i \<and> int k \<le> high \<longrightarrow> out ! k = 0"
    and "\<forall>d \<in> set out. d < 58"
    and "(b58val (take (nat (i + 1)) out) * 256 + carry) * 58 ^ (length out - nat (i + 1))
           + b58val (drop (nat (i + 1)) out) = T"
    and "T < 58 ^ length out"
  shows "\<exists>out' i'. mrtron_carry carry i high out = Some (out', i')
           \<and> length out' = length out \<and> b58val out' = T \<and> (\<forall>d \<in> set out'. d < 58)
           \<and> - 1 \<le> i' \<and> i' < int (length out)
           \<and> (\<forall>k. int k \<le> i' \<longrightarrow> out' ! k = 0)"
  using assms
proof (induction carry i high out rule: mrtron_carry.induct)
  case (1 carry i high out)
  let ?m = "nat (i + 1)"
  let ?n = "length out"
  show ?case
  proof (cases "i \<le> high \<and> carry = 0")
    case True
    have zeros: "\<forall>k. int k \<le> i \<longrightarrow> out ! k = 0"
      using True "1.prems"(4) by auto
    have "set (take ?m out) \<subseteq> {0}"
    proof
      fix x assume "x \<in> set (take ?m out)"
      then obtain k where "k < length (take ?m out)" "take ?m out ! k = x"
        by (auto simp: in_set_conv_nth)
      then have "k < ?m" "out ! k = x" by auto
      with zeros show "x \<in> {0}" by auto
    qed
    then have "b58val (take ?m out) = 0" by (rule b58val_zeros)
    moreover have "b58val out = b58val (take ?m out) * 58 ^ length (drop ?m out)
                     + b58val (drop ?m out)"
      using b58val_append [of "take ?m out" "drop ?m out"] by simp
    ultimately have "b58val out = T"
      using True "1.prems"(6) by simp
    moreover have "mrtron_carry carry i high out = Some (out, i)"
      using True by (subst mrtron_carry.simps) simp
    ultimately show ?thesis
      using "1.prems" zeros by auto
  next
    case False
    have i0: "0 \<le> i"
    proof (rule ccontr)
      assume "\<not> 0 \<le> i"
      with "1.prems"(1) have i: "i = - 1" by simp
      with False "1.prems"(3) have "carry \<noteq> 0" by auto
      then have "58 ^ ?n \<le> carry * 58 ^ ?n" by simp
      also have "\<dots> \<le> T" using i "1.prems"(6) by auto
      finally show False using "1.prems"(7) by simp
    qed
    define c where "c = carry + 256 * out ! nat i"
    define out2 where "out2 = out[nat i := c mod 58]"
    have notexit: "\<not> (i \<le> high \<and> carry = 0)" by (rule False)
    have nopanic: "\<not> (i < 0 \<or> int (length out) \<le> i)" using i0 "1.prems"(2) by simp
    have step: "mrtron_carry carry i high out = mrtron_carry (c div 58) (i - 1) high out2"
      by (subst mrtron_carry.simps) (simp only: notexit nopanic if_False c_def out2_def Let_def)
    have ni: "nat i < ?n" using i0 "1.prems"(2) by simp
    have m: "?m = Suc (nat i)" using i0 by simp
    have m2: "nat (i - 1 + 1) = nat i" by simp
    have tk: "take (nat i) out2 = take (nat i) out" by (simp add: out2_def)
    have dr: "drop (nat i) out2 = (c mod 58) # drop ?m out"
      using ni by (simp add: out2_def m drop_update_cancel Cons_nth_drop_Suc [symmetric]
          upd_conv_take_nth_drop)
    have tk1: "take ?m out = take (nat i) out @ [out ! nat i]"
      using ni by (simp add: m take_Suc_conv_app_nth)
    have len2: "length out2 = ?n" by (simp add: out2_def)
    have ldr: "length (drop ?m out) = ?n - ?m" by simp
    have pw: "(58::nat) ^ (?n - nat i) = 58 * 58 ^ (?n - ?m)"
    proof -
      have "?n - nat i = Suc (?n - ?m)" using ni m by simp
      then show ?thesis by simp
    qed
    have T2: "(b58val (take (nat (i - 1 + 1)) out2) * 256 + c div 58)
                 * 58 ^ (length out2 - nat (i - 1 + 1))
               + b58val (drop (nat (i - 1 + 1)) out2) = T"
    proof -
      define A where "A = b58val (take (nat i) out)"
      define R where "R = b58val (drop ?m out)"
      define p where "p = (58::nat) ^ (?n - ?m)"
      define q where "q = c div 58"
      define r where "r = c mod 58"
      define d where "d = out ! nat i"
      have c: "c = q * 58 + r" by (simp add: q_def r_def)
      have c': "c = carry + 256 * d" by (simp add: c_def d_def)
      have "(A * 256 + q) * (58 * p) + (r * p + R) = (A * 58 * 256 + (q * 58 + r)) * p + R"
        by (simp add: algebra_simps)
      also have "\<dots> = (A * 58 * 256 + (carry + 256 * d)) * p + R"
        using c c' by simp
      also have "\<dots> = ((A * 58 + d) * 256 + carry) * p + R"
        by (simp add: algebra_simps)
      also have "\<dots> = T"
        using "1.prems"(6) by (simp add: tk1 A_def R_def p_def d_def)
      finally have "(A * 256 + q) * (58 * p) + (r * p + R) = T" .
      then show ?thesis
        by (simp add: m2 tk dr len2 pw b58val_Cons ldr A_def R_def p_def q_def r_def)
    qed
    have zeros2: "\<forall>k. int k \<le> i - 1 \<and> int k \<le> high \<longrightarrow> out2 ! k = 0"
    proof (intro allI impI)
      fix k assume k: "int k \<le> i - 1 \<and> int k \<le> high"
      have "k \<noteq> nat i"
      proof
        assume "k = nat i"
        then have "int k = i" using i0 by simp
        with k show False by simp
      qed
      then have "out2 ! k = out ! k" by (simp add: out2_def)
      with k "1.prems"(4) show "out2 ! k = 0" by auto
    qed
    have digits2: "\<forall>d \<in> set out2. d < 58"
    proof
      fix d assume "d \<in> set out2"
      then have "d \<in> insert (c mod 58) (set out)"
        using set_update_subset_insert [of out "nat i" "c mod 58"] by (auto simp: out2_def)
      with "1.prems"(5) show "d < 58" by auto
    qed
    have "\<exists>out' i'. mrtron_carry (c div 58) (i - 1) high out2 = Some (out', i')
           \<and> length out' = length out2 \<and> b58val out' = T \<and> (\<forall>d \<in> set out'. d < 58)
           \<and> - 1 \<le> i' \<and> i' < int (length out2)
           \<and> (\<forall>k. int k \<le> i' \<longrightarrow> out' ! k = 0)"
    proof (rule "1.IH" [OF notexit nopanic refl, folded c_def out2_def])
      show "- 1 \<le> i - 1" using i0 by simp
      show "i - 1 < int (length out2)" using "1.prems"(2) by (simp add: len2)
      show "- 1 \<le> high" by (rule "1.prems"(3))
      show "\<forall>k. int k \<le> i - 1 \<and> int k \<le> high \<longrightarrow> out2 ! k = 0" by (rule zeros2)
      show "\<forall>d \<in> set out2. d < 58" by (rule digits2)
      show "(b58val (take (nat (i - 1 + 1)) out2) * 256 + c div 58)
                 * 58 ^ (length out2 - nat (i - 1 + 1))
               + b58val (drop (nat (i - 1 + 1)) out2) = T" by (rule T2)
      show "T < 58 ^ length out2" using "1.prems"(7) by (simp add: len2)
    qed
    then show ?thesis by (simp add: step len2)
  qed
qed


lemma foldl_bytes_ge: "a \<le> foldl (\<lambda>acc b. acc * 256 + unat b) a (bs :: byte list)"
proof (induction bs arbitrary: a)
  case Nil
  show ?case by simp
next
  case (Cons b bs)
  have "a \<le> a * 256 + unat b" by simp
  also have "\<dots> \<le> foldl (\<lambda>acc b. acc * 256 + unat b) (a * 256 + unat b) bs"
    by (rule Cons.IH)
  finally show ?case by simp
qed

lemma mrtron_bytes_correct:
  assumes "length out = sz" and "- 1 \<le> high"
    and "\<forall>k. int k \<le> high \<longrightarrow> out ! k = 0"
    and "\<forall>d \<in> set out. d < 58"
    and "foldl (\<lambda>acc b. acc * 256 + unat b) (b58val out) bin < 58 ^ sz"
  shows "\<exists>out'. mrtron_bytes bin (int sz) high out = Some out' \<and> length out' = sz
           \<and> b58val out' = foldl (\<lambda>acc b. acc * 256 + unat b) (b58val out) bin
           \<and> (\<forall>d \<in> set out'. d < 58)"
  using assms
proof (induction bin arbitrary: high out)
  case Nil
  then show ?case by simp
next
  case (Cons b bin)
  let ?f = "\<lambda>acc (b :: byte). acc * 256 + unat b"
  let ?T = "b58val out * 256 + unat b"
  have T: "(b58val (take (nat (int sz - 1 + 1)) out) * 256 + unat b)
              * 58 ^ (length out - nat (int sz - 1 + 1))
            + b58val (drop (nat (int sz - 1 + 1)) out) = ?T"
    using Cons.prems(1) by simp
  have "?T \<le> foldl ?f ?T bin" by (rule foldl_bytes_ge)
  also have "\<dots> < 58 ^ sz" using Cons.prems(5) by simp
  finally have bound: "?T < 58 ^ length out" using Cons.prems(1) by simp
  have "\<exists>out' i'. mrtron_carry (unat b) (int sz - 1) high out = Some (out', i')
           \<and> length out' = length out \<and> b58val out' = ?T \<and> (\<forall>d \<in> set out'. d < 58)
           \<and> - 1 \<le> i' \<and> i' < int (length out)
           \<and> (\<forall>k. int k \<le> i' \<longrightarrow> out' ! k = 0)"
  proof (rule mrtron_carry_correct)
    show "- 1 \<le> int sz - 1" by simp
    show "int sz - 1 < int (length out)" using Cons.prems(1) by simp
    show "- 1 \<le> high" by (rule Cons.prems(2))
    show "\<forall>k. int k \<le> int sz - 1 \<and> int k \<le> high \<longrightarrow> out ! k = 0"
      using Cons.prems(3) by simp
    show "\<forall>d \<in> set out. d < 58" by (rule Cons.prems(4))
    show "(b58val (take (nat (int sz - 1 + 1)) out) * 256 + unat b)
              * 58 ^ (length out - nat (int sz - 1 + 1))
            + b58val (drop (nat (int sz - 1 + 1)) out) = ?T" by (rule T)
    show "?T < 58 ^ length out" by (rule bound)
  qed
  then obtain out' i' where inner: "mrtron_carry (unat b) (int sz - 1) high out = Some (out', i')"
    and len: "length out' = sz" and val: "b58val out' = ?T"
    and dig: "\<forall>d \<in> set out'. d < 58" and i': "- 1 \<le> i'"
    and zeros: "\<forall>k. int k \<le> i' \<longrightarrow> out' ! k = 0"
    using Cons.prems(1) by auto
  have "\<exists>out''. mrtron_bytes bin (int sz) i' out' = Some out'' \<and> length out'' = sz
           \<and> b58val out'' = foldl ?f (b58val out') bin \<and> (\<forall>d \<in> set out''. d < 58)"
  proof (rule Cons.IH)
    show "length out' = sz" by (rule len)
    show "- 1 \<le> i'" by (rule i')
    show "\<forall>k. int k \<le> i' \<longrightarrow> out' ! k = 0" by (rule zeros)
    show "\<forall>d \<in> set out'. d < 58" by (rule dig)
    show "foldl ?f (b58val out') bin < 58 ^ sz" using Cons.prems(5) by (simp add: val)
  qed
  then show ?case by (simp add: inner val)
qed

text \<open>The buffer is long enough: \<open>256 ^ k < 58 ^ (k * 555 div 406 + 1)\<close>.\<close>

lemma pow_chain_le: "A ^ 95 * 2 ^ 18 \<le> (A ^ 16 * 2 ^ 11) * (B ^ 79 * 29 ^ 2)" if "A \<le> B" for A B :: nat
proof -
  have "A ^ 79 \<le> B ^ 79" using that by (rule power_mono) simp
  then have "A ^ 79 * 128 \<le> B ^ 79 * 841" by (rule mult_mono) simp_all
  then have "A ^ 16 * 2048 * (A ^ 79 * 128) \<le> A ^ 16 * 2048 * (B ^ 79 * 841)"
    by (rule mult_left_mono) simp
  moreover have "A ^ 95 = A ^ 16 * A ^ 79"
  proof -
    have "(95::nat) = 16 + 79" by simp
    then show ?thesis by (simp only: power_add)
  qed
  moreover have "(2::nat) ^ 18 = 2048 * 128" "(2::nat) ^ 11 = 2048" "(29::nat) ^ 2 = 841"
    by simp_all
  ultimately show ?thesis by (simp only: mult_ac)
qed


lemma pow_256_406_eq: "(256::nat) ^ 406 = (2 ^ 34) ^ 95 * 2 ^ 18"
proof -
  have x1: "(8::nat) * 406 = 34 * 95 + 18" by simp
  have b1: "(256::nat) = 2 ^ 8" by simp
  have "(256::nat) ^ 406 = (2 ^ 8) ^ 406" by (simp only: b1 [symmetric])
  also have "\<dots> = 2 ^ (8 * 406)" by (simp only: power_mult)
  also have "\<dots> = 2 ^ (34 * 95 + 18)" by (simp only: x1)
  also have "\<dots> = (2 ^ 34) ^ 95 * 2 ^ 18" by (simp only: power_add power_mult)
  finally show ?thesis .
qed

lemma pow_58_555_eq: "(58::nat) ^ 555 = ((2 ^ 34) ^ 16 * 2 ^ 11) * ((29 ^ 7) ^ 79 * 29 ^ 2)"
proof -
  have x2: "(555::nat) = 34 * 16 + 11" by simp
  have x3: "(555::nat) = 7 * 79 + 2" by simp
  have b2: "(58::nat) = 2 * 29" by simp
  have "(58::nat) ^ 555 = (2 * 29) ^ 555" by (simp only: b2 [symmetric])
  also have "\<dots> = 2 ^ 555 * 29 ^ 555" by (simp only: power_mult_distrib)
  also have "\<dots> = 2 ^ (34 * 16 + 11) * 29 ^ (7 * 79 + 2)"
    by (simp only: x2 [symmetric] x3 [symmetric])
  also have "\<dots> = ((2 ^ 34) ^ 16 * 2 ^ 11) * ((29 ^ 7) ^ 79 * 29 ^ 2)"
    by (simp only: power_add power_mult)
  finally show ?thesis .
qed

lemma pow_256_406_le: "(256::nat) ^ 406 \<le> 58 ^ 555"
proof -
  have "(2::nat) ^ 34 \<le> 29 ^ 7" by simp
  then have "((2::nat) ^ 34) ^ 95 * 2 ^ 18 \<le> ((2 ^ 34) ^ 16 * 2 ^ 11) * ((29 ^ 7) ^ 79 * 29 ^ 2)"
    by (rule pow_chain_le)
  then show ?thesis by (simp only: pow_256_406_eq pow_58_555_eq)
qed

lemma mrtron_size_bound: "(256::nat) ^ k < 58 ^ (k * 555 div 406 + 1)"
proof -
  define q where "q = k * 555 div 406 + 1"
  have lt: "k * 555 < q * 406"
    using dividend_less_times_div [of 406 "k * 555"] by (simp add: q_def)
  have "((256::nat) ^ k) ^ 406 = (256 ^ 406) ^ k"
    by (simp only: power_mult [symmetric] mult.commute)
  also have "\<dots> \<le> (58 ^ 555) ^ k"
    by (rule power_mono [OF pow_256_406_le]) (rule zero_le)
  also have "\<dots> = 58 ^ (k * 555)"
    by (simp only: power_mult [symmetric] mult.commute)
  also have "\<dots> < 58 ^ (q * 406)"
    by (rule power_strict_increasing [OF lt]) simp
  also have "\<dots> = (58 ^ q) ^ 406"
    by (simp only: power_mult)
  finally have "((256::nat) ^ k) ^ 406 < (58 ^ q) ^ 406" .
  then have "(256::nat) ^ k < 58 ^ q"
    by (rule power_less_imp_less_base) (rule zero_le)
  then show ?thesis by (simp only: q_def)
qed

lemma bytes_to_nat_less: "bytes_to_nat bs < 256 ^ length bs"
proof (induction bs rule: rev_induct)
  case Nil
  show ?case by simp
next
  case (snoc b bs)
  have "unat b < 256" using unsigned_less [of b, where 'a = nat] by simp
  with snoc show ?case by (simp add: bytes_to_nat_snoc)
qed

lemma bytes_to_nat_dropWhile:
  "bytes_to_nat (dropWhile (\<lambda>b. b = 0) bs) = bytes_to_nat bs"
proof (induction bs)
  case Nil
  show ?case by simp
next
  case (Cons b bs)
  then show ?case by (simp add: bytes_to_nat_def)
qed


lemma leading_zero_digits:
  assumes "b58val ds < 58 ^ (length ds - z)" and "z \<le> length ds"
  shows "take z ds = replicate z 0"
proof -
  define p where "p = (58::nat) ^ (length ds - z)"
  define x where "x = b58val (take z ds)"
  have "b58val ds = x * p + b58val (drop z ds)"
    using b58val_append [of "take z ds" "drop z ds"] by (simp add: p_def x_def)
  moreover have "b58val ds < p" using assms(1) by (simp add: p_def)
  ultimately have lt: "x * p < p" by linarith
  have "x = 0"
  proof (rule ccontr)
    assume "x \<noteq> 0"
    then have "1 * p \<le> x * p" by (intro mult_le_mono1) simp
    with lt show False by simp
  qed
  then have "b58val (take z ds) < 1" by (simp add: x_def)
  then have "set (take z ds) \<subseteq> {0}" by (intro b58val_eq_0) simp
  then have "take z ds = replicate (length (take z ds)) 0"
    by (intro replicate_length_same [symmetric]) auto
  with assms(2) show ?thesis by simp
qed

lemma digits_repr:
  "\<forall>d \<in> set ds. d < 58 \<Longrightarrow>
   map (\<lambda>d. b58_alphabet ! d) (dropWhile (\<lambda>d. d = 0) ds) = rev (b58_digits (b58val ds))"
proof (induction ds rule: rev_induct)
  case Nil
  show ?case by simp
next
  case (snoc d ds)
  let ?n = "b58val (ds @ [d])"
  have d: "d < 58" using snoc.prems by simp
  have IH: "map (\<lambda>d. b58_alphabet ! d) (dropWhile (\<lambda>d. d = 0) ds) = rev (b58_digits (b58val ds))"
    using snoc by simp
  show ?case
  proof (cases "?n = 0")
    case True
    then have "set (ds @ [d]) \<subseteq> {0}" by (rule b58val_eq_0)
    then have "dropWhile (\<lambda>d. d = 0) (ds @ [d]) = []" by auto
    with True show ?thesis by simp
  next
    case False
    have dm: "?n div 58 = b58val ds" "?n mod 58 = d" using d by simp_all
    have "rev (b58_digits ?n) = rev (b58_digits (b58val ds)) @ [b58_alphabet ! d]"
      using False by (subst b58_digits.simps) (simp only: dm if_False rev.simps)
    also have "\<dots> = map (\<lambda>d. b58_alphabet ! d) (dropWhile (\<lambda>d. d = 0) ds @ [d])"
      by (simp add: IH)
    also have "dropWhile (\<lambda>d. d = 0) ds @ [d] = dropWhile (\<lambda>d. d = 0) (ds @ [d])"
    proof (cases "set ds \<subseteq> {0}")
      case True
      then have "b58val ds = 0" by (rule b58val_zeros)
      with False have "d \<noteq> 0" by simp
      moreover have "dropWhile (\<lambda>d. d = 0) ds = []" using True by auto
      moreover have "dropWhile (\<lambda>d. d = 0) (ds @ [d]) = dropWhile (\<lambda>d. d = 0) [d]"
        using True by (intro dropWhile_append2) auto
      ultimately show ?thesis by simp
    next
      case False
      then obtain x where "x \<in> set ds" "x \<noteq> 0" by auto
      then show ?thesis by (simp add: dropWhile_append1)
    qed
    finally show ?thesis by simp
  qed
qed

text \<open>
  The two Base58 encoders agree: the encoder of \<^verbatim>\<open>mr-tron/base58\<close> never leaves its buffer
  and returns the text that \<^verbatim>\<open>btcutil/base58\<close> returns.
\<close>

lemma mrtronBase58_Encode_eq: "mrtronBase58_Encode bin = Some (base58_Encode bin)"
proof -
  define zcount where "zcount = length (takeWhile (\<lambda>b. b = 0) bin)"
  define sz where "sz = zcount + (length bin - zcount) * 555 div 406 + 1"
  let ?f = "\<lambda>acc (b :: byte). acc * 256 + unat b"
  have zc: "zcount \<le> sz" by (simp add: sz_def)
  have "bytes_to_nat bin = bytes_to_nat (dropWhile (\<lambda>b. b = 0) bin)"
    by (simp add: bytes_to_nat_dropWhile)
  also have "\<dots> < 256 ^ length (dropWhile (\<lambda>b. b = 0) bin)"
    by (rule bytes_to_nat_less)
  also have "length (dropWhile (\<lambda>b. b = 0) bin) = length bin - zcount"
  proof -
    have "length (takeWhile (\<lambda>b. b = 0) bin) + length (dropWhile (\<lambda>b. b = 0) bin)
            = length bin"
      by (simp flip: length_append)
    then show ?thesis unfolding zcount_def by linarith
  qed
  also have "(256::nat) ^ (length bin - zcount) < 58 ^ ((length bin - zcount) * 555 div 406 + 1)"
    by (rule mrtron_size_bound)
  also have "(length bin - zcount) * 555 div 406 + 1 = sz - zcount"
    by (simp add: sz_def)
  finally have small: "bytes_to_nat bin < 58 ^ (sz - zcount)" .
  also have "\<dots> \<le> 58 ^ sz" by (rule power_increasing) simp_all
  finally have fits: "bytes_to_nat bin < 58 ^ sz" .
  have "\<exists>out. mrtron_bytes bin (int sz) (int sz - 1) (replicate sz 0) = Some out
          \<and> length out = sz
          \<and> b58val out = foldl ?f (b58val (replicate sz 0)) bin
          \<and> (\<forall>d \<in> set out. d < 58)"
  proof (rule mrtron_bytes_correct)
    show "length (replicate sz (0::nat)) = sz" by simp
    show "- 1 \<le> int sz - 1" by simp
    show "\<forall>k. int k \<le> int sz - 1 \<longrightarrow> replicate sz (0::nat) ! k = 0" by simp
    show "\<forall>d \<in> set (replicate sz (0::nat)). d < 58" by simp
    show "foldl ?f (b58val (replicate sz 0)) bin < 58 ^ sz"
      using fits by (simp add: bytes_to_nat_def)
  qed
  then obtain out where run: "mrtron_bytes bin (int sz) (int sz - 1) (replicate sz 0) = Some out"
    and len: "length out = sz" and val: "b58val out = bytes_to_nat bin"
    and dig: "\<forall>d \<in> set out. d < 58"
    by (auto simp: bytes_to_nat_def)
  define rest where "rest = drop zcount out"
  define t where "t = length (takeWhile (\<lambda>d. d = 0) rest)"
  have lead: "take zcount out = replicate zcount 0"
    using small zc by (intro leading_zero_digits) (simp_all add: val len)
  have out: "out = replicate zcount 0 @ rest"
    using append_take_drop_id [of zcount out] by (simp add: lead rest_def)
  have tw: "takeWhile (\<lambda>d. d = 0) rest = replicate t 0"
    unfolding t_def by (rule takeWhile_zero_replicate)
  have rest: "rest = replicate t 0 @ dropWhile (\<lambda>d. d = 0) rest"
    using takeWhile_dropWhile_id [of "\<lambda>d. d = 0" rest] by (simp add: tw)
  have "out = replicate t 0 @ replicate zcount 0 @ dropWhile (\<lambda>d. d = 0) rest"
  proof -
    have "out = replicate zcount 0 @ replicate t 0 @ dropWhile (\<lambda>d. d = 0) rest"
      using out rest by simp
    also have "\<dots> = replicate (zcount + t) 0 @ dropWhile (\<lambda>d. d = 0) rest"
      by (simp add: replicate_add)
    also have "\<dots> = replicate (t + zcount) 0 @ dropWhile (\<lambda>d. d = 0) rest"
      by (simp add: add.commute)
    finally show ?thesis by (simp add: replicate_add)
  qed
  then have "drop t out = drop t (replicate t 0 @ replicate zcount 0 @ dropWhile (\<lambda>d. d = 0) rest)"
    by simp
  then have val': "drop t out = replicate zcount 0 @ dropWhile (\<lambda>d. d = 0) rest"
    by simp
  have "dropWhile (\<lambda>d. d = 0) out = dropWhile (\<lambda>d. d = 0) (replicate zcount 0 @ rest)"
    using out by simp
  also have "\<dots> = dropWhile (\<lambda>d. d = 0) rest"
    by (rule dropWhile_append2) simp
  finally have dw: "dropWhile (\<lambda>d. d = 0) rest = dropWhile (\<lambda>d. d = 0) out" by simp
  have "map (\<lambda>d. b58_alphabet ! d) (drop t out)
          = replicate zcount (b58_alphabet ! 0) @ rev (b58_digits (bytes_to_nat bin))"
    using digits_repr [OF dig] by (simp add: val' dw val)
  also have "\<dots> = base58_Encode bin"
    by (simp add: base58_Encode_alt zcount_def)
  finally have res: "map (\<lambda>d. b58_alphabet ! d) (drop t out) = base58_Encode bin" .
  have "mrtronBase58_Encode bin =
          (case mrtron_bytes bin (int sz) (int sz - 1) (replicate sz 0) of
             None \<Rightarrow> None
           | Some out \<Rightarrow>
               Some (map (\<lambda>d. b58_alphabet ! d)
                 (drop (zcount + length (takeWhile (\<lambda>d. d = 0) (drop zcount out)) - zcount)
                    out)))"
    by (simp only: mrtronBase58_Encode_def Let_def zcount_def sz_def)
  also have "\<dots> = Some (map (\<lambda>d. b58_alphabet ! d) (drop (zcount + t - zcount) out))"
    by (simp only: run option.case t_def rest_def)
  also have "zcount + t - zcount = t" by simp
  finally show ?thesis by (simp only: res)
qed

section \<open>Public keys\<close>

lemma length_nat_to_bytes: "n < 256 ^ k \<Longrightarrow> length (nat_to_bytes n) \<le> k"
proof (induction n arbitrary: k rule: nat_to_bytes.induct)
  case (1 n)
  show ?case
  proof (cases "n = 0")
    case True
    then show ?thesis by (simp add: nat_to_bytes.simps)
  next
    case False
    with "1.prems" obtain j where k: "k = Suc j" by (cases k) auto
    with "1.prems" have "n div 256 < 256 ^ j"
      by (simp add: less_mult_imp_div_less mult.commute)
    then have "length (nat_to_bytes (n div 256)) \<le> j" using False by (rule "1.IH" [rotated])
    with False k show ?thesis by (subst nat_to_bytes.simps) simp
  qed
qed

lemma be_bytes_zero: "be_bytes k 0 = replicate k 0"
  by (induction k) (simp_all add: replicate_append_same)

lemma be_bytes_padded:
  "n < 256 ^ k \<Longrightarrow> be_bytes k n = replicate (k - length (nat_to_bytes n)) 0 @ nat_to_bytes n"
proof (induction k arbitrary: n)
  case 0
  then show ?case by (simp add: nat_to_bytes.simps)
next
  case (Suc k)
  show ?case
  proof (cases "n = 0")
    case True
    then show ?thesis
      by (simp add: be_bytes_zero nat_to_bytes.simps replicate_append_same)
  next
    case False
    from Suc.prems have small: "n div 256 < 256 ^ k"
      by (simp add: less_mult_imp_div_less mult.commute)
    then have len: "length (nat_to_bytes (n div 256)) \<le> k" by (rule length_nat_to_bytes)
    have nb: "nat_to_bytes n = nat_to_bytes (n div 256) @ [of_nat (n mod 256)]"
      using False by (subst nat_to_bytes.simps) simp
    have "be_bytes (Suc k) n = be_bytes k (n div 256) @ [of_nat (n mod 256)]" by simp
    also have "\<dots> = replicate (k - length (nat_to_bytes (n div 256))) 0
                      @ nat_to_bytes (n div 256) @ [of_nat (n mod 256)]"
      by (simp add: Suc.IH [OF small])
    also have "\<dots> = replicate (Suc k - length (nat_to_bytes n)) 0 @ nat_to_bytes n"
      using len by (simp add: nb)
    finally show ?thesis .
  qed
qed

lemma bytes_to_nat_be_bytes: "bytes_to_nat (be_bytes k n) = n mod 256 ^ k"
proof (induction k arbitrary: n)
  case 0
  show ?case by simp
next
  case (Suc k)
  have "unat (of_nat (n mod 256) :: byte) = n mod 256"
    by (simp add: unat_of_nat)
  then have "bytes_to_nat (be_bytes (Suc k) n) = n div 256 mod 256 ^ k * 256 + n mod 256"
    by (simp add: bytes_to_nat_snoc Suc.IH)
  also have "\<dots> = n mod (256 * 256 ^ k)"
    by (simp add: mod_mult2_eq mult.commute)
  finally show ?case by simp
qed

lemma secp256k1_P_small: "secp256k1_P < 256 ^ 32"
  by (simp add: secp256k1_P_def)

lemma secp256k1_P_pos: "0 < secp256k1_P"
  by (simp add: secp256k1_P_def)

lemma on_field_Infinity: "on_field Infinity"
  by (simp add: on_field_def)

lemma on_field_Affine_mod: "on_field (Affine (a mod secp256k1_P) (b mod secp256k1_P))"
  using secp256k1_P_pos by (simp add: on_field_def)

lemma on_field_ec_add: "on_field p \<Longrightarrow> on_field q \<Longrightarrow> on_field (ec_add p q)"
proof (cases p)
  case Infinity
  assume "on_field q"
  with Infinity show ?thesis by simp
next
  case p: (Affine x1 y1)
  assume "on_field p"
  show ?thesis
  proof (cases q)
    case Infinity
    with p \<open>on_field p\<close> show ?thesis by simp
  next
    case (Affine x2 y2)
    have "on_field (ec_add (Affine x1 y1) (Affine x2 y2))"
      by (simp only: ec_add.simps Let_def on_field_Infinity on_field_Affine_mod simp_thms
          split: if_split)
    with p Affine show ?thesis by simp
  qed
qed

lemma on_field_ec_mul: "on_field p \<Longrightarrow> on_field (ec_mul k p)"
proof (induction k p rule: ec_mul.induct)
  case (1 k p)
  show ?case
  proof (cases "k = 0")
    case True
    then show ?thesis by (subst ec_mul.simps) (simp add: on_field_def)
  next
    case False
    have pp: "on_field (ec_add p p)" using "1.prems" by (intro on_field_ec_add)
    show ?thesis
    proof (cases "even k")
      case True
      with False "1.IH"(1) [OF False True pp] show ?thesis
        by (subst ec_mul.simps) simp
    next
      case odd: False
      with False "1.IH"(2) [OF False odd pp] "1.prems" show ?thesis
        by (subst ec_mul.simps) (simp add: on_field_ec_add)
    qed
  qed
qed

lemma on_field_G: "on_field secp256k1_G"
  by (simp add: on_field_def secp256k1_G_def secp256k1_P_def)

lemma ScalarBaseMult_on_field: "on_field (ScalarBaseMult k)"
  by (simp add: ScalarBaseMult_def on_field_ec_mul on_field_G)

lemma ScalarBaseMult_range:
  assumes "ScalarBaseMult k = Affine x y"
  shows "0 \<le> x" and "nat x < 256 ^ 32" and "0 \<le> y" and "nat y < 256 ^ 32"
proof -
  have "on_field (Affine x y)" using ScalarBaseMult_on_field [of k] assms by simp
  then have r: "0 \<le> x" "x < secp256k1_P" "0 \<le> y" "y < secp256k1_P"
    by (simp_all add: on_field_def)
  then show "0 \<le> x" "0 \<le> y" by simp_all
  have "x < 256 ^ 32" "y < 256 ^ 32" using r secp256k1_P_small by linarith+
  with r show "nat x < 256 ^ 32" "nat y < 256 ^ 32" by (simp_all add: nat_less_iff)
qed

lemma ec_mul_one: "ec_mul 1 (Affine x y) = Affine x y"
  by (subst ec_mul.simps) (simp add: ec_mul.simps [of 0])

lemma compressPublicKey_eq:
  assumes "nat x < 256 ^ 32"
  shows "compressPublicKey x y = (0x2 + of_nat (nat y mod 2)) # be_bytes 32 (nat x)"
  using assms by (simp add: compressPublicKey_def Let_def be_bytes_padded)

lemma SerializeUncompressed_eq:
  assumes "nat x < 256 ^ 32" and "nat y < 256 ^ 32"
  shows "SerializeUncompressed \<lparr>X = x, Y = y\<rparr> = 0x04 # be_bytes 32 (nat x) @ be_bytes 32 (nat y)"
  using assms by (simp add: SerializeUncompressed_def paddedAppend_def be_bytes_padded)

section \<open>The Base58Check pipelines\<close>

lemma base58check_eq:
  "base58check v pk = base58_Encode ((v # hash160 pk) @ computeChecksum (v # hash160 pk))"
  by (simp add: base58check_def hash160_eq computeChecksum_eq Let_def)

lemma base58_Decode_base58check:
  "base58_Decode (base58check v pk) = (v # hash160 pk) @ computeChecksum (v # hash160 pk)"
  by (simp only: base58check_eq base58_Decode_Encode)

lemma derived_child_key_point:
  assumes "derived_child_key k"
  obtains x y where "ScalarBaseMult (Key k) = Affine x y" and "public_point k = (x, y)"
    and "0 \<le> x" and "nat x < 256 ^ 32" and "0 \<le> y" and "nat y < 256 ^ 32"
proof -
  from assms obtain x y where p: "ScalarBaseMult (Key k) = Affine x y"
    by (cases "ScalarBaseMult (Key k)") (auto simp: derived_child_key_def)
  moreover have "public_point k = (x, y)" by (simp add: public_point_def p)
  ultimately show ?thesis using ScalarBaseMult_range [OF p] that by blast
qed

lemma bip32_PublicKey_derived:
  assumes "derived_child_key k" and "public_point k = (x, y)"
  shows "\<exists>pub. bip32_PublicKey k = Inr pub \<and> Key pub = compressPublicKey x y"
proof -
  from assms(1) obtain x' y' where "ScalarBaseMult (Key k) = Affine x' y'"
    and "public_point k = (x', y')" by (rule derived_child_key_point)
  with assms show ?thesis
    by (simp add: bip32_PublicKey_def publicKeyForPrivateKey_def derived_child_key_def)
qed

lemma generateBTCAddress_derived:
  assumes "derived_child_key k" and "public_point k = (x, y)"
  shows "generateBTCAddress k = Inr (base58check 0x00 (compressPublicKey x y))"
  using bip32_PublicKey_derived [OF assms]
  by (auto simp: generateBTCAddress_def base58check_eq Let_def)

lemma generateBTCAddress_p0_eq: "generateBTCAddress_p0 k = generateBTCAddress k"
  by (simp add: generateBTCAddress_p0_def generateBTCAddress_def Hash160_eq hash160_eq
      computeChecksum_eq computeChecksum_p0_eq Let_def split: sum.split)

lemma generateERCAddress_derived:
  assumes "derived_child_key k" and "public_point k = (x, y)"
  shows "generateERCAddress k = Inr (base58check 0x21 (compressPublicKey x y))"
  using bip32_PublicKey_derived [OF assms]
  by (auto simp: generateERCAddress_def base58check_eq Let_def)

lemma generateTRXAddress_derived:
  assumes "derived_child_key k" and "public_point k = (x, y)"
  shows "generateTRXAddress k = Inr (base58check 0x41 (compressPublicKey x y))"
  using bip32_PublicKey_derived [OF assms]
  by (auto simp: generateTRXAddress_def base58check_def Let_def mrtronBase58_Encode_eq
      computeChecksum_eq hasher_New_def hasher_Write_def ripemd160_Sum_def)

lemma generateTRXAddress_p0_eq:
  "generateTRXAddress_p0 k =
     Inr (base58check 0x41 (SerializeUncompressed (PublicKey (btcec_PrivKeyFromBytes (Key k)))))"
  by (simp add: generateTRXAddress_p0_def base58check_def Let_def Hash160_eq
      computeChecksum_p0_eq)

lemma SerializeUncompressed_derived:
  assumes "derived_child_key k" and "public_point k = (x, y)"
  shows "SerializeUncompressed (PublicKey (btcec_PrivKeyFromBytes (Key k)))
           = 0x04 # be_bytes 32 (nat x) @ be_bytes 32 (nat y)"
proof -
  from assms(1) obtain x' y' where p: "ScalarBaseMult (Key k) = Affine x' y'"
    and "public_point k = (x', y')" and "nat x' < 256 ^ 32" and "nat y' < 256 ^ 32"
    by (rule derived_child_key_point)
  with assms(2) show ?thesis
    by (simp add: btcec_PrivKeyFromBytes_def SerializeUncompressed_eq)
qed

text \<open>
  Claim C3, amended. For every child key, the TRX pipeline of \<^verbatim>\<open>utils.go\<close> hashes the
  33-byte compressed public key that \<^verbatim>\<open>PublicKey()\<close> yields (the bytes the BTC pipeline
  hashes), and the TRX pipeline of the earlier revision hashes the 65-byte uncompressed
  public key \<open>0x04 \<parallel> X \<parallel> Y\<close> that it derives again from the private scalar; both prepend
  the version byte \<open>0x41\<close>, append the checksum and encode in Base58.
\<close>

theorem generateTRXAddress_hashed_key:
  assumes "derived_child_key k"
  shows "case public_point k of (x, y) \<Rightarrow>
           generateTRXAddress k = Inr (base58check 0x41 (compressPublicKey x y))
         \<and> compressPublicKey x y = (0x2 + of_nat (nat y mod 2)) # be_bytes 32 (nat x)
         \<and> length (compressPublicKey x y) = 33
         \<and> generateTRXAddress_p0 k
             = Inr (base58check 0x41 (0x04 # be_bytes 32 (nat x) @ be_bytes 32 (nat y)))
         \<and> length (0x04 # be_bytes 32 (nat x) @ be_bytes 32 (nat y)) = 65"
proof -
  from assms obtain x y where pp: "public_point k = (x, y)" and x: "nat x < 256 ^ 32"
    by (rule derived_child_key_point)
  have "generateTRXAddress_p0 k
          = Inr (base58check 0x41 (0x04 # be_bytes 32 (nat x) @ be_bytes 32 (nat y)))"
    by (simp only: generateTRXAddress_p0_eq SerializeUncompressed_derived [OF assms pp])
  then show ?thesis
    using generateTRXAddress_derived [OF assms pp] compressPublicKey_eq [OF x, of y]
    by (simp add: pp)
qed

text \<open>
  Claim C6. For every child key, replacing the leading byte of the payload that the BTC
  pipeline encodes (recovered by decoding its output) with \<open>0x21\<close> and recomputing the
  checksum over the 21 bytes gives the decoding of the output of the ERC pipeline.
\<close>

theorem generateERCAddress_is_BTC_with_version_0x21:
  assumes "derived_child_key k"
  shows "\<exists>btc erc. generateBTCAddress k = Inr btc \<and> generateERCAddress k = Inr erc
           \<and> hd (base58_Decode btc) = 0x00
           \<and> (let versioned = 0x21 # tl (take 21 (base58_Decode btc))
               in base58_Decode erc = versioned @ computeChecksum versioned)"
proof -
  from assms obtain x y where pp: "public_point k = (x, y)"
    by (rule derived_child_key_point)
  show ?thesis
    using generateBTCAddress_derived [OF assms pp] generateERCAddress_derived [OF assms pp]
    by (simp add: base58_Decode_base58check)
qed

text \<open>
  Claim C7. For every child key, the Base58 decoding of the BTC address starts with the
  byte \<open>0x00\<close>, that of the ERC address with \<open>0x21\<close>, and that of the TRX address with
  \<open>0x41\<close> (in both revisions, where the pipeline exists).
\<close>

theorem decoded_version_bytes:
  assumes "derived_child_key k"
  shows "\<exists>btc erc trx btc0 trx0.
           generateBTCAddress k = Inr btc \<and> generateERCAddress k = Inr erc
         \<and> generateTRXAddress k = Inr trx
         \<and> generateBTCAddress_p0 k = Inr btc0 \<and> generateTRXAddress_p0 k = Inr trx0
         \<and> hd (base58_Decode btc) = 0x00 \<and> hd (base58_Decode erc) = 0x21
         \<and> hd (base58_Decode trx) = 0x41
         \<and> hd (base58_Decode btc0) = 0x00 \<and> hd (base58_Decode trx0) = 0x41"
proof -
  from assms obtain x y where pp: "public_point k = (x, y)"
    by (rule derived_child_key_point)
  have "generateBTCAddress_p0 k = generateBTCAddress k"
    by (rule generateBTCAddress_p0_eq)
  then show ?thesis
    using generateBTCAddress_derived [OF assms pp] generateERCAddress_derived [OF assms pp]
      generateTRXAddress_derived [OF assms pp] generateTRXAddress_p0_eq [of k]
    by (simp add: base58_Decode_base58check)
qed

text \<open>
  Claim C8. For every child key and each of the BTC, ERC and TRX pipelines, the Base58
  decoding of the output is a payload of 25 bytes whose last 4 bytes are \<open>computeChecksum\<close>
  of the 21 bytes before them.
\<close>

lemma checksum_valid_base58check: "checksum_valid (base58_Decode (base58check v pk))"
  by (simp add: checksum_valid_def base58_Decode_base58check)

theorem decoded_checksum_round_trip:
  assumes "derived_child_key k"
  shows "\<exists>btc erc trx btc0 trx0.
           generateBTCAddress k = Inr btc \<and> generateERCAddress k = Inr erc
         \<and> generateTRXAddress k = Inr trx
         \<and> generateBTCAddress_p0 k = Inr btc0 \<and> generateTRXAddress_p0 k = Inr trx0
         \<and> checksum_valid (base58_Decode btc) \<and> checksum_valid (base58_Decode erc)
         \<and> checksum_valid (base58_Decode trx)
         \<and> checksum_valid (base58_Decode btc0) \<and> checksum_valid (base58_Decode trx0)"
proof -
  from assms obtain x y where pp: "public_point k = (x, y)"
    by (rule derived_child_key_point)
  have "generateBTCAddress_p0 k = generateBTCAddress k"
    by (rule generateBTCAddress_p0_eq)
  then show ?thesis
    using generateBTCAddress_derived [OF assms pp] generateERCAddress_derived [OF assms pp]
      generateTRXAddress_derived [OF assms pp] generateTRXAddress_p0_eq [of k]
    by (simp add: checksum_valid_base58check)
qed

section \<open>The text of an Ethereum address\<close>

lemma char_of_byte_byte_of_char [simp]: "char_of_byte (byte_of_char c) = c"
  by (simp add: char_of_byte_def byte_of_char_def unat_of_nat)

lemma length_hex_Encode [simp]: "length (hex_Encode a) = 2 * length a"
  by (induction a) simp_all

lemma length_checksum_loop [simp]: "length (checksum_loop i h buf) = length buf"
  by (induction buf arbitrary: i) (simp_all add: Let_def)

lemma Address_Hex_eq:
  "Address_Hex a =
     ''0x'' @ map char_of_byte (checksum_loop 2 (crypto_Keccak256 (hex_Encode a)) (hex_Encode a))"
  by (simp add: Address_Hex_def Address_checksumHex_def Address_hex_def Let_def)

lemma length_hextable: "length hextable = 16"
  by (simp add: hextable_def)

lemma high_nibble_less: "unat (drop_bit 4 (v :: byte)) < 16"
proof -
  have "unat v < 256" using unsigned_less [of v, where 'a = nat] by simp
  then have "drop_bit 4 (unat v) < 16"
    by (simp add: drop_bit_eq_div less_mult_imp_div_less)
  then show ?thesis by (simp only: unat_drop_bit_eq)
qed

lemma low_nibble_less: "unat ((v :: byte) AND 0x0f) < 16"
proof -
  have "unat (v AND 15) \<le> unat (15 :: byte)"
    by (rule word_and_le1 [THEN word_le_nat_alt [THEN iffD1]])
  then show ?thesis by simp
qed

lemma hex_Encode_bytes: "set (hex_Encode a) \<subseteq> set (map byte_of_char hextable)"
proof (induction a)
  case Nil
  show ?case by simp
next
  case (Cons v a)
  have "hextable ! unat (drop_bit 4 v) \<in> set hextable"
    by (rule nth_mem) (simp add: length_hextable high_nibble_less)
  moreover have "hextable ! unat (v AND 0x0f) \<in> set hextable"
    by (rule nth_mem) (simp add: length_hextable low_nibble_less)
  ultimately show ?case using Cons by auto
qed

lemma hex_bytes_cases:
  "list_all (\<lambda>c. hex_digit (char_of_byte c)
      \<and> lower_hex_digit (char_of_byte c)
      \<and> ascii_lower (char_of_byte c) = char_of_byte c
      \<and> (if c > 0x39
          then hex_digit (char_of_byte (c - 32))
            \<and> ascii_lower (char_of_byte (c - 32)) = char_of_byte c
          else True))
    (map byte_of_char hextable)"
  by (simp add: hextable_def byte_of_char_def char_of_byte_def hex_digit_def lower_hex_digit_def
      ascii_lower_def char_of_def bit_0)


lemma hex_byte_facts:
  assumes "c \<in> set (map byte_of_char hextable)"
  shows "hex_digit (char_of_byte c)" and "lower_hex_digit (char_of_byte c)"
    and "ascii_lower (char_of_byte c) = char_of_byte c"
    and "c > 0x39 \<Longrightarrow> hex_digit (char_of_byte (c - 32))"
    and "c > 0x39 \<Longrightarrow> ascii_lower (char_of_byte (c - 32)) = char_of_byte c"
proof -
  note f = hex_bytes_cases [unfolded list_all_iff, rule_format, OF assms]
  from f show "hex_digit (char_of_byte c)" "lower_hex_digit (char_of_byte c)"
    "ascii_lower (char_of_byte c) = char_of_byte c" by simp_all
  from f show "c > 0x39 \<Longrightarrow> hex_digit (char_of_byte (c - 32))"
    "c > 0x39 \<Longrightarrow> ascii_lower (char_of_byte (c - 32)) = char_of_byte c"
    by (simp_all split: if_splits)
qed

lemma checksum_loop_hex_digits:
  "set buf \<subseteq> set (map byte_of_char hextable) \<Longrightarrow>
   list_all hex_digit (map char_of_byte (checksum_loop i h buf))"
proof (induction buf arbitrary: i)
  case Nil
  show ?case by simp
next
  case (Cons c buf)
  then have c: "c \<in> set (map byte_of_char hextable)" by simp
  from Cons have "list_all hex_digit (map char_of_byte (checksum_loop (i + 1) h buf))"
    by simp
  then show ?case
    using hex_byte_facts(1) [OF c] hex_byte_facts(4) [OF c] by (simp add: Let_def)
qed

lemma checksum_loop_lower:
  "set buf \<subseteq> set (map byte_of_char hextable) \<Longrightarrow>
   map ascii_lower (map char_of_byte (checksum_loop i h buf)) = map char_of_byte buf"
proof (induction buf arbitrary: i)
  case Nil
  show ?case by simp
next
  case (Cons c buf)
  then have c: "c \<in> set (map byte_of_char hextable)" by simp
  from Cons have "map ascii_lower (map char_of_byte (checksum_loop (i + 1) h buf))
                    = map char_of_byte buf"
    by simp
  then show ?case
    using hex_byte_facts(3) [OF c] hex_byte_facts(5) [OF c] by (simp add: Let_def)
qed

lemma hex_Encode_lower_digits: "list_all lower_hex_digit (map char_of_byte (hex_Encode a))"
  using hex_Encode_bytes [of a] hex_byte_facts(2)
  by (auto simp: list_all_iff)

lemma ascii_lower_prefix: "map ascii_lower ''0x'' = ''0x''"
  by (simp add: ascii_lower_def)

lemma Address_Hex_format:
  assumes "length a = 20"
  shows "evm_mixed_case_format (Address_Hex a)"
    and "map ascii_lower (Address_Hex a) = ''0x'' @ map char_of_byte (hex_Encode a)"
    and "evm_lowercase_format (''0x'' @ map char_of_byte (hex_Encode a))"
proof -
  show "evm_mixed_case_format (Address_Hex a)"
    using assms checksum_loop_hex_digits [OF hex_Encode_bytes]
    by (simp add: evm_mixed_case_format_def Address_Hex_eq)
  show "map ascii_lower (Address_Hex a) = ''0x'' @ map char_of_byte (hex_Encode a)"
    using checksum_loop_lower [OF hex_Encode_bytes] ascii_lower_prefix
    by (simp add: Address_Hex_eq)
  show "evm_lowercase_format (''0x'' @ map char_of_byte (hex_Encode a))"
    using assms hex_Encode_lower_digits [of a]
    by (simp add: evm_lowercase_format_def)
qed

lemma crypto_ToECDSAUnsafe_derived:
  assumes "derived_child_key k" and "public_point k = (x, y)"
  shows "crypto_ToECDSAUnsafe (Key k)
           = Some \<lparr>PublicKey = \<lparr>X = x, Y = y\<rparr>, D = bytes_to_nat (Key k)\<rparr>"
proof -
  from assms(1) obtain x' y' where "ScalarBaseMult (Key k) = Affine x' y'"
    and "public_point k = (x', y')" by (rule derived_child_key_point)
  with assms show ?thesis
    by (simp add: crypto_ToECDSAUnsafe_def derived_child_key_def)
qed

lemma crypto_PubkeyToAddress_eq:
  "crypto_PubkeyToAddress \<lparr>X = x, Y = y\<rparr>
     = last_bytes 20 (crypto_Keccak256 (be_bytes 32 (nat x) @ be_bytes 32 (nat y)))"
  by (simp add: crypto_PubkeyToAddress_def crypto_FromECDSAPub_def common_BytesToAddress_def
      last_bytes_def Let_def)

lemma generateEVMAddress_derived:
  assumes "derived_child_key k" and "public_point k = (x, y)"
  shows "generateEVMAddress k =
           Inr (Address_Hex (last_bytes 20
                  (crypto_Keccak256 (be_bytes 32 (nat x) @ be_bytes 32 (nat y)))))"
  by (simp add: generateEVMAddress_def crypto_ToECDSAUnsafe_derived [OF assms]
      crypto_PubkeyToAddress_eq)

text \<open>
  Claim C2, amended. For every child key, the output of the EVM pipeline has exactly 42
  characters: the prefix \<open>0x\<close> followed by exactly 40 hexadecimal characters, in mixed
  case. They are the lower-case hexadecimal rendering of the last 20 bytes of the Keccak-256
  hash of the 64-byte public key point \<open>X \<parallel> Y\<close>, in which the checksum loop of
  \<^verbatim>\<open>Address.Hex\<close> has turned a letter to upper case where the corresponding nibble of the
  Keccak-256 hash of the 40 lower-case characters exceeds 7; putting the output in lower
  case gives \<open>0x\<close> and these 40 lower-case characters.
\<close>

theorem generateEVMAddress_format:
  assumes "derived_child_key k"
  shows "case public_point k of (x, y) \<Rightarrow>
           (let pub64 = be_bytes 32 (nat x) @ be_bytes 32 (nat y);
                addr = last_bytes 20 (crypto_Keccak256 pub64);
                lower = hex_Encode addr;
                address = ''0x'' @ map char_of_byte
                            (checksum_loop 2 (crypto_Keccak256 lower) lower)
            in generateEVMAddress k = Inr address
             \<and> evm_mixed_case_format address
             \<and> map ascii_lower address = ''0x'' @ map char_of_byte lower
             \<and> evm_lowercase_format (''0x'' @ map char_of_byte lower)
             \<and> length pub64 = 64 \<and> length addr = 20
             \<and> bytes_to_nat (take 32 pub64) = nat x
             \<and> bytes_to_nat (drop 32 pub64) = nat y)"
proof -
  from assms obtain x y where pp: "public_point k = (x, y)"
    and x: "nat x < 256 ^ 32" and y: "nat y < 256 ^ 32"
    by (rule derived_child_key_point)
  define addr where
    "addr = last_bytes 20 (crypto_Keccak256 (be_bytes 32 (nat x) @ be_bytes 32 (nat y)))"
  have len: "length addr = 20" by (simp add: addr_def last_bytes_def)
  have gen: "generateEVMAddress k = Inr (Address_Hex addr)"
    unfolding addr_def by (rule generateEVMAddress_derived [OF assms pp])
  have coords: "bytes_to_nat (be_bytes 32 (nat x)) = nat x"
    "bytes_to_nat (be_bytes 32 (nat y)) = nat y"
    using x y by (simp_all only: bytes_to_nat_be_bytes mod_less)
  show ?thesis
    unfolding pp prod.case Let_def
    unfolding addr_def [symmetric] Address_Hex_eq [symmetric]
    using gen Address_Hex_format [OF len] len coords by simp
qed

end
